(* ===== verification/Prelude.thy ===== *)
theory Prelude
  imports Main "HOL-Library.Word" "HOL-Library.List_Lexorder"
begin

unbundle bit_operations_syntax

text \<open>
  Shared vocabulary of the development: the machine integers and fixed-size arrays of
  Rust, slices and positions, checked arithmetic, \<open>Result\<close> values, and the lemmas
  about them that every component uses.

  Conventions.
  \<^item> A Rust \<open>Result<T, E>\<close> is a value of \<open>'e + 'a\<close>: \<open>Inl e\<close> is \<open>Err(e)\<close>, \<open>Inr x\<close>
    is \<open>Ok(x)\<close>. The \<open>?\<close> operator is \<open>res_bind\<close>.
  \<^item> A Rust panic is \<open>None\<close> of the type \<open>'a panicking\<close>.
  \<^item> \<open>[T; N]\<close> is \<open>('a, 'n) arr\<close>, where the length \<open>N\<close> is the type \<open>'n\<close>, so that
    \<open>[u8; 32]\<close> is \<open>32 bytes\<close>.
\<close>

section \<open>Proof-hint collections\<close>

named_theorems res_simps \<open>inversion of Result-valued computations\<close>
named_theorems arr_simps \<open>reading and writing fixed-size arrays\<close>

section \<open>Integers and byte strings\<close>

type_synonym u8 = "8 word"
type_synonym u16 = "16 word"
type_synonym u32 = "32 word"
type_synonym u64 = "64 word"
type_synonym i64 = "64 word"  \<comment> \<open>read with \<open>sint\<close>; the program only stores it\<close>

text \<open>\<open>checked_add\<close> of the unsigned integer types: \<open>None\<close> when the sum does not fit.\<close>

definition checked_add :: "'a::len word \<Rightarrow> 'a word \<Rightarrow> 'a word option" where
  "checked_add a b = (if unat a + unat b < 2 ^ LENGTH('a) then Some (a + b) else None)"

lemma checked_add_Some:
  "checked_add a b = Some c \<longleftrightarrow>
     unat a + unat b < 2 ^ LENGTH('a) \<and> c = a + (b :: 'a::len word)"
  by (auto simp: checked_add_def)

lemma checked_add_unat:
  "checked_add a b = Some c \<Longrightarrow> unat c = unat a + unat (b :: 'a::len word)"
  by (auto simp: checked_add_def unat_word_ariths split: if_splits)

lemma checked_add_None:
  "checked_add a b = None \<longleftrightarrow> 2 ^ LENGTH('a) \<le> unat a + unat (b :: 'a::len word)"
  by (auto simp: checked_add_def)

text \<open>
  Shifting a \<open>u64\<close> by an amount that is not below its width is an arithmetic overflow: it
  panics where overflow checks are compiled in (the on-chain profile sets
  \<open>overflow-checks = true\<close>; so do debug builds) and otherwise uses the amount modulo 64.
\<close>

type_synonym 'a panicking = "'a option"

datatype arith_mode = Checked | Wrapping

definition shift_amount :: "arith_mode \<Rightarrow> nat \<Rightarrow> nat panicking" where
  "shift_amount m k =
     (if k < 64 then Some k else case m of Checked \<Rightarrow> None | Wrapping \<Rightarrow> Some (k mod 64))"

definition shr_u64 :: "arith_mode \<Rightarrow> u64 \<Rightarrow> nat \<Rightarrow> u64 panicking" where
  "shr_u64 m x k = map_option (\<lambda>s. drop_bit s x) (shift_amount m k)"

definition shl_u64 :: "arith_mode \<Rightarrow> u64 \<Rightarrow> nat \<Rightarrow> u64 panicking" where
  "shl_u64 m x k = map_option (\<lambda>s. push_bit s x) (shift_amount m k)"

lemma shift_amount_lt [simp]: "k < 64 \<Longrightarrow> shift_amount m k = Some k"
  by (simp add: shift_amount_def)

lemma shr_u64_lt [simp]: "k < 64 \<Longrightarrow> shr_u64 m x k = Some (drop_bit k x)"
  by (simp add: shr_u64_def)

lemma shl_u64_lt [simp]: "k < 64 \<Longrightarrow> shl_u64 m x k = Some (push_bit k x)"
  by (simp add: shl_u64_def)

lemma shr_u64_checked_None [simp]: "64 \<le> k \<Longrightarrow> shr_u64 Checked x k = None"
  by (simp add: shr_u64_def shift_amount_def)

lemma drop_bit_and_one_eq: "(drop_bit k x AND 1 = (1 :: 'a::len word)) \<longleftrightarrow> bit x k"
  by (simp add: and_one_eq bit_iff_odd_drop_bit odd_iff_mod_2_eq_one flip: One_nat_def)

section \<open>Results\<close>

definition res_bind :: "'e + 'a \<Rightarrow> ('a \<Rightarrow> 'e + 'b) \<Rightarrow> 'e + 'b" where
  "res_bind r f = (case r of Inl e \<Rightarrow> Inl e | Inr x \<Rightarrow> f x)"

definition ok_or :: "'a option \<Rightarrow> 'e \<Rightarrow> 'e + 'a" where
  "ok_or opt e = (case opt of None \<Rightarrow> Inl e | Some x \<Rightarrow> Inr x)"

definition require :: "bool \<Rightarrow> 'e \<Rightarrow> 'e + unit" where
  "require c e = (if c then Inr () else Inl e)"

definition map_err :: "('e \<Rightarrow> 'f) \<Rightarrow> 'e + 'a \<Rightarrow> 'f + 'a" where
  "map_err f r = (case r of Inl e \<Rightarrow> Inl (f e) | Inr x \<Rightarrow> Inr x)"

lemma res_bind_simps [simp]:
  "res_bind (Inl e) f = Inl e"
  "res_bind (Inr x) f = f x"
  by (simp_all add: res_bind_def)

lemma ok_or_simps [simp]:
  "ok_or None e = Inl e"
  "ok_or (Some x) e = Inr x"
  by (simp_all add: ok_or_def)

lemma require_simps [simp]:
  "require True e = Inr ()"
  "require False e = Inl e"
  by (simp_all add: require_def)

lemma map_err_simps [simp]:
  "map_err f (Inl e) = Inl (f e)"
  "map_err f (Inr x) = Inr x"
  by (simp_all add: map_err_def)

lemma res_bind_Inr_iff [res_simps]:
  "res_bind r f = Inr y \<longleftrightarrow> (\<exists>x. r = Inr x \<and> f x = Inr y)"
  by (cases r) auto

lemma res_bind_Inl_iff [res_simps]:
  "res_bind r f = Inl e \<longleftrightarrow> r = Inl e \<or> (\<exists>x. r = Inr x \<and> f x = Inl e)"
  by (cases r) auto

lemma ok_or_iff [res_simps]:
  "ok_or opt e = Inr y \<longleftrightarrow> opt = Some y"
  "ok_or opt e = Inl e' \<longleftrightarrow> opt = None \<and> e' = e"
  by (cases opt; auto)+

lemma require_iff [res_simps]:
  "require c e = Inr u \<longleftrightarrow> c"
  "require c e = Inl e' \<longleftrightarrow> \<not> c \<and> e' = e"
  by (auto simp: require_def)

lemma map_err_iff [res_simps]:
  "map_err f r = Inr y \<longleftrightarrow> r = Inr y"
  "map_err f r = Inl e \<longleftrightarrow> (\<exists>e'. r = Inl e' \<and> e = f e')"
  by (cases r; auto)+

section \<open>Slices and positions\<close>

text \<open>\<open>s.get(a..b)\<close>: the subslice, or \<open>None\<close> when \<open>a > b\<close> or \<open>b > s.len()\<close>.\<close>

definition slice_get :: "'a list \<Rightarrow> nat \<Rightarrow> nat \<Rightarrow> 'a list option" where
  "slice_get s a b = (if a \<le> b \<and> b \<le> length s then Some (take (b - a) (drop a s)) else None)"

lemma slice_get_Some:
  "slice_get s a b = Some t \<longleftrightarrow> a \<le> b \<and> b \<le> length s \<and> t = take (b - a) (drop a s)"
  by (auto simp: slice_get_def)

lemma slice_get_length: "slice_get s a b = Some t \<Longrightarrow> length t = b - a"
  by (auto simp: slice_get_Some)

text \<open>\<open>s.get(i)\<close>.\<close>

definition elem_get :: "'a list \<Rightarrow> nat \<Rightarrow> 'a option" where
  "elem_get s i = (if i < length s then Some (s ! i) else None)"

lemma elem_get_Some: "elem_get s i = Some x \<longleftrightarrow> i < length s \<and> x = s ! i"
  by (auto simp: elem_get_def)

lemma elem_get_None: "elem_get s i = None \<longleftrightarrow> length s \<le> i"
  by (auto simp: elem_get_def)

text \<open>\<open>s.iter().position(p)\<close>: the index of the first element that satisfies \<open>p\<close>.\<close>

fun position :: "('a \<Rightarrow> bool) \<Rightarrow> 'a list \<Rightarrow> nat option" where
  "position p [] = None"
| "position p (x # xs) = (if p x then Some 0 else map_option Suc (position p xs))"

lemma position_None: "position p xs = None \<longleftrightarrow> (\<forall>x \<in> set xs. \<not> p x)"
  by (induction xs) auto

lemma position_Some:
  "position p xs = Some i \<longleftrightarrow> i < length xs \<and> p (xs ! i) \<and> (\<forall>j < i. \<not> p (xs ! j))"
proof (induction xs arbitrary: i)
  case Nil
  then show ?case by simp
next
  case (Cons x xs)
  show ?case
    by (cases i) (auto simp: Cons.IH less_Suc_eq_0_disj)
qed

text \<open>Overwriting an entry exchanges its contribution to a count.\<close>

lemma count_update:
  "i < length xs \<Longrightarrow>
     length (filter q (xs[i := v])) + (if q (xs ! i) then 1 else 0) =
     length (filter q xs) + (if q v then 1 else 0)"
proof (induction xs arbitrary: i)
  case Nil
  then show ?case by simp
next
  case (Cons x xs)
  show ?case
  proof (cases i)
    case 0
    then show ?thesis by simp
  next
    case (Suc k)
    with Cons.prems Cons.IH [of k] show ?thesis by simp
  qed
qed

text \<open>Filling the first free slot counts the new entry and loses none.\<close>

lemma count_update_position:
  assumes "position (\<lambda>x. \<not> p x) xs = Some i" and "\<And>x. q x \<Longrightarrow> p x"
  shows "length (filter q (xs[i := v])) = length (filter q xs) + (if q v then 1 else 0)"
  using assms count_update [of i xs q v] by (auto simp: position_Some split: if_splits)

end
