(* ===== verification/Arrays.thy ===== *)
theory Arrays
  imports Prelude
begin

text \<open>
  Rust's fixed-size arrays \<open>[T; N]\<close>. The length is a type parameter, as in the source:
  \<open>(u8, 33) arr\<close> is \<open>[u8; 33]\<close>, and no value of the type has another length. Arrays are
  compared lexicographically, which is what the derived \<open>PartialOrd\<close>/\<open>Ord\<close> of the
  newtypes over them mean.
\<close>

section \<open>The type\<close>

typedef (overloaded) ('a, 'n::len) arr = "{xs :: 'a list. length xs = LENGTH('n)}"
  morphisms arr_list arr_of
  by (rule exI [of _ "replicate LENGTH('n) undefined"]) simp

setup_lifting type_definition_arr

type_synonym 'n bytes = "(u8, 'n) arr"

lemma length_arr_list [simp, arr_simps]: "length (arr_list (a :: ('a, 'n::len) arr)) = LENGTH('n)"
  using arr_list [of a] by simp

lemma arr_list_of [simp, arr_simps]:
  "length xs = LENGTH('n) \<Longrightarrow> arr_list (arr_of xs :: ('a, 'n::len) arr) = xs"
  by (simp add: arr_of_inverse)

lemma arr_of_list [simp, arr_simps]: "arr_of (arr_list a) = a"
  by (rule arr_list_inverse)

lemma arr_eq_iff: "a = b \<longleftrightarrow> arr_list a = arr_list b"
  by (simp add: arr_list_inject)

lemma arr_of_eq_iff [simp, arr_simps]:
  "length xs = LENGTH('n) \<Longrightarrow> length ys = LENGTH('n) \<Longrightarrow>
     (arr_of xs :: ('a, 'n::len) arr) = arr_of ys \<longleftrightarrow> xs = ys"
  by (simp add: arr_eq_iff)

lemma inj_arr_list: "inj arr_list"
  by (simp add: inj_def arr_list_inject)

section \<open>Operations\<close>

text \<open>\<open>[v; N]\<close>.\<close>

definition arr_fill :: "'a \<Rightarrow> ('a, 'n::len) arr" where
  "arr_fill v = arr_of (replicate LENGTH('n) v)"

text \<open>\<open>a[i] = v\<close>, for an index within the array.\<close>

definition arr_set :: "('a, 'n::len) arr \<Rightarrow> nat \<Rightarrow> 'a \<Rightarrow> ('a, 'n) arr" where
  "arr_set a i v = arr_of ((arr_list a)[i := v])"

text \<open>\<open>a.get(i)\<close> and \<open>a.iter().position(p)\<close>.\<close>

definition arr_get :: "('a, 'n::len) arr \<Rightarrow> nat \<Rightarrow> 'a option" where
  "arr_get a i = elem_get (arr_list a) i"

definition arr_position :: "('a \<Rightarrow> bool) \<Rightarrow> ('a, 'n::len) arr \<Rightarrow> nat option" where
  "arr_position p a = position p (arr_list a)"

text \<open>The number of entries that satisfy a predicate.\<close>

definition arr_count :: "('a \<Rightarrow> bool) \<Rightarrow> ('a, 'n::len) arr \<Rightarrow> nat" where
  "arr_count p a = length (filter p (arr_list a))"

lemma arr_list_fill [simp, arr_simps]:
  "arr_list (arr_fill v :: ('a, 'n::len) arr) = replicate LENGTH('n) v"
  by (simp add: arr_fill_def)

lemma arr_fill_eq_iff [simp, arr_simps]:
  "(arr_fill a :: ('a, 'n::len) arr) = arr_fill b \<longleftrightarrow> a = b"
  by (simp add: arr_eq_iff)

lemma arr_list_set [simp, arr_simps]: "arr_list (arr_set a i v) = (arr_list a)[i := v]"
  by (simp add: arr_set_def)

lemma arr_get_set:
  "arr_get (arr_set (a :: ('a, 'n::len) arr) i v) j =
     (if j = i \<and> i < LENGTH('n) then Some v else arr_get a j)"
  by (auto simp: arr_get_def elem_get_def)

lemma arr_count_le: "arr_count p (a :: ('a, 'n::len) arr) \<le> LENGTH('n)"
  unfolding arr_count_def by (metis length_arr_list length_filter_le)

lemma arr_count_fill: "arr_count p (arr_fill v :: ('a, 'n::len) arr) = (if p v then LENGTH('n) else 0)"
  by (simp add: arr_count_def filter_replicate)

lemma arr_position_lt: "arr_position p (a :: ('a, 'n::len) arr) = Some i \<Longrightarrow> i < LENGTH('n)"
  by (simp add: arr_position_def position_Some)

lemma arr_count_set_position:
  "arr_position (\<lambda>x. \<not> p x) a = Some i \<Longrightarrow> (\<And>x. q x \<Longrightarrow> p x) \<Longrightarrow>
     arr_count q (arr_set a i v) = arr_count q a + (if q v then 1 else 0)"
  by (simp add: arr_position_def arr_count_def count_update_position)

text \<open>There is a free entry exactly when not all entries are used.\<close>

lemma arr_position_None_iff_full:
  "arr_position (\<lambda>x. \<not> p x) (a :: ('a, 'n::len) arr) = None \<longleftrightarrow> arr_count p a = LENGTH('n)"
proof -
  have "arr_count p a = LENGTH('n) \<longleftrightarrow> filter p (arr_list a) = arr_list a"
    unfolding arr_count_def
    by (metis length_arr_list length_filter_less less_irrefl filter_id_conv)
  then show ?thesis
    by (simp add: arr_position_def position_None filter_id_conv)
qed

section \<open>Order and equality\<close>

instantiation arr :: (equal, len) equal
begin

definition equal_arr :: "('a, 'b) arr \<Rightarrow> ('a, 'b) arr \<Rightarrow> bool" where
  "equal_arr a b \<longleftrightarrow> arr_list a = arr_list b"

instance
  by standard (simp add: equal_arr_def arr_eq_iff)

end

instantiation arr :: (linorder, len) linorder
begin

definition less_eq_arr :: "('a, 'b) arr \<Rightarrow> ('a, 'b) arr \<Rightarrow> bool" where
  "less_eq_arr a b \<longleftrightarrow> arr_list a \<le> arr_list b"

definition less_arr :: "('a, 'b) arr \<Rightarrow> ('a, 'b) arr \<Rightarrow> bool" where
  "less_arr a b \<longleftrightarrow> arr_list a < arr_list b"

instance
  by standard (auto simp: less_eq_arr_def less_arr_def arr_eq_iff)

end

end
