(* ===== verification/Merkle_Scheme.thy ===== *)
theory Merkle_Scheme
  imports Arrays
begin

text \<open>
  What a Merkle membership check promises, independently of the hash and of the module
  that implements it. The repository holds the check twice (the on-chain
  \<open>programs/passkeyauth/src/merkle.rs\<close> and the off-chain
  \<open>offchain/crates/core/src/merkle.rs\<close>); both are shown to satisfy the interface
  \<open>merkle_verifier\<close> of this theory, and everything proved inside it holds of both.
\<close>

section \<open>Reference specification\<close>

text \<open>
  Climb from a node to the root: at level \<open>k\<close> the sibling is the left child when \<open>dir k\<close>.
\<close>

fun fold_path :: "('a \<Rightarrow> 'a \<Rightarrow> 'a) \<Rightarrow> (nat \<Rightarrow> bool) \<Rightarrow> nat \<Rightarrow> 'a \<Rightarrow> 'a list \<Rightarrow> 'a" where
  "fold_path hp dir k n [] = n"
| "fold_path hp dir k n (s # ss) = fold_path hp dir (Suc k) (if dir k then hp s n else hp n s) ss"

text \<open>The ordered pairs that the climb hashes, from the leaf upwards.\<close>

definition pair_at :: "(nat \<Rightarrow> bool) \<Rightarrow> nat \<Rightarrow> 'a \<Rightarrow> 'a \<Rightarrow> 'a \<times> 'a" where
  "pair_at dir k n s = (if dir k then (s, n) else (n, s))"

definition hash_of :: "('a \<Rightarrow> 'a \<Rightarrow> 'a) \<Rightarrow> 'a \<times> 'a \<Rightarrow> 'a" where
  "hash_of hp p = hp (fst p) (snd p)"

fun path_pairs ::
    "('a \<Rightarrow> 'a \<Rightarrow> 'a) \<Rightarrow> (nat \<Rightarrow> bool) \<Rightarrow> nat \<Rightarrow> 'a \<Rightarrow> 'a list \<Rightarrow> ('a \<times> 'a) list" where
  "path_pairs hp dir k n [] = []"
| "path_pairs hp dir k n (s # ss) =
     pair_at dir k n s # path_pairs hp dir (Suc k) (hash_of hp (pair_at dir k n s)) ss"

text \<open>
  A collision: two different ordered pairs with the same parent. Pairs of 64 bytes have
  32-byte parents, so collisions exist; what the security of the scheme needs is that
  nobody can exhibit one. The lemmas below therefore name the pairs: they are found among
  those that the check and the tree themselves hash.
\<close>

definition colliding :: "('a \<Rightarrow> 'a \<Rightarrow> 'a) \<Rightarrow> 'a \<times> 'a \<Rightarrow> 'a \<times> 'a \<Rightarrow> bool" where
  "colliding hp p q \<longleftrightarrow> p \<noteq> q \<and> hash_of hp p = hash_of hp q"

lemma fold_path_Cons:
  "fold_path hp dir k n (s # ss) = fold_path hp dir (Suc k) (hash_of hp (pair_at dir k n s)) ss"
  by (simp add: pair_at_def hash_of_def)

lemma length_path_pairs [simp]: "length (path_pairs hp dir k n ss) = length ss"
  by (induction ss arbitrary: k n) auto

lemma pair_at_eqD: "pair_at dir k m s = pair_at dir k n t \<Longrightarrow> m = n \<and> s = t"
  by (auto simp: pair_at_def split: if_splits)

lemma fold_path_append:
  "fold_path hp dir k n (ss @ ts) = fold_path hp dir (k + length ss) (fold_path hp dir k n ss) ts"
  by (induction ss arbitrary: k n) auto

lemma fold_path_cong:
  "(\<And>j. j < length ss \<Longrightarrow> dir (k + j) = dir' (k' + j)) \<Longrightarrow>
     fold_path hp dir k n ss = fold_path hp dir' k' n ss"
proof (induction ss arbitrary: k k' n)
  case Nil
  show ?case by simp
next
  case (Cons s ss)
  have "dir (Suc k + j) = dir' (Suc k' + j)" if "j < length ss" for j
    using Cons.prems [of "Suc j"] that by simp
  moreover have "dir k = dir' k'"
    using Cons.prems [of 0] by simp
  ultimately show ?case by (simp add: Cons.IH [of "Suc k" "Suc k'"])
qed

text \<open>
  The root determines the node and the siblings: the two climbs can be compared from the
  top, and where they first differ they hash a collision.
\<close>

lemma fold_path_inj:
  assumes "length ss = length ts"
    and "fold_path hp dir k m ss = fold_path hp dir k n ts"
  shows "(m = n \<and> ss = ts) \<or>
    (\<exists>j < length ss. colliding hp (path_pairs hp dir k m ss ! j) (path_pairs hp dir k n ts ! j))"
  using assms
proof (induction ss ts arbitrary: k m n rule: list_induct2)
  case Nil
  then show ?case by simp
next
  case (Cons s ss t ts)
  let ?p = "pair_at dir k m s" and ?q = "pair_at dir k n t"
  from Cons.IH [of "Suc k" "hash_of hp ?p" "hash_of hp ?q"] Cons.prems
  consider (eq) "hash_of hp ?p = hash_of hp ?q" "ss = ts"
    | (above) j where "j < length ss"
        "colliding hp (path_pairs hp dir (Suc k) (hash_of hp ?p) ss ! j)
          (path_pairs hp dir (Suc k) (hash_of hp ?q) ts ! j)"
    by (auto simp: fold_path_Cons simp del: fold_path.simps)
  then show ?case
  proof cases
    case eq
    then show ?thesis
      by (cases "?p = ?q") (auto simp: colliding_def dest: pair_at_eqD)
  next
    case above
    then show ?thesis by (intro disjI2 exI [of _ "Suc j"]) simp
  qed
qed

section \<open>The interface of a membership check\<close>

text \<open>
  \<open>croot\<close> recomputes the root from a leaf, its siblings and the direction bits, and
  \<open>vfy\<close> compares the result with a given root; \<open>None\<close> is a panic. The laws hold up to 64
  siblings, the width of the direction bits.
\<close>

locale merkle_verifier =
  fixes hp :: "'a \<Rightarrow> 'a \<Rightarrow> 'a"
    and croot :: "'a \<Rightarrow> 'a list \<Rightarrow> u64 \<Rightarrow> 'a panicking"
    and vfy :: "'a \<Rightarrow> 'a list \<Rightarrow> u64 \<Rightarrow> 'a \<Rightarrow> bool panicking"
  assumes croot_law: "length ss \<le> 64 \<Longrightarrow> croot leaf ss bits = Some (fold_path hp (bit bits) 0 leaf ss)"
    and vfy_law: "vfy leaf ss bits root = map_option (\<lambda>r. r = root) (croot leaf ss bits)"
begin

lemma vfy_iff:
  "length ss \<le> 64 \<Longrightarrow>
     vfy leaf ss bits root = Some (fold_path hp (bit bits) 0 leaf ss = root)"
  by (simp add: croot_law vfy_law)

text \<open>The check is binding: two accepted proofs that differ give a collision.\<close>

lemma vfy_binding:
  assumes "length ss \<le> 64" and "length ts = length ss"
    and "vfy leaf ss bits root = Some True" and "vfy leaf' ts bits root = Some True"
  shows "(leaf = leaf' \<and> ss = ts) \<or>
    (\<exists>j < length ss. colliding hp (path_pairs hp (bit bits) 0 leaf ss ! j)
                                   (path_pairs hp (bit bits) 0 leaf' ts ! j))"
  using assms by (intro fold_path_inj) (simp_all add: vfy_iff)

text \<open>
  The empty proof accepts exactly the root. Leaves and inner nodes are hashed alike, so
  an accepted proof gives an accepted shorter one for the inner node above its leaf.
\<close>

lemma vfy_empty: "vfy leaf [] bits root = Some (leaf = root)"
  by (simp add: vfy_iff)

lemma vfy_inner_node:
  assumes "length (s # ss) \<le> 64" and "vfy leaf (s # ss) bits root = Some True"
  shows "vfy (if bit bits 0 then hp s leaf else hp leaf s) ss (drop_bit 1 bits) root = Some True"
proof -
  have "bit bits (1 + j) = bit (drop_bit 1 bits) (0 + j)" for j
    by (simp add: bit_drop_bit_eq)
  then have "fold_path hp (bit bits) 1 n ss = fold_path hp (bit (drop_bit 1 bits)) 0 n ss" for n
    by (intro fold_path_cong) simp
  with assms show ?thesis by (simp add: vfy_iff)
qed

end

end
