(* ===== verification/Merkle_Onchain.thy ===== *)
theory Merkle_Onchain
  imports Merkle_Scheme
begin

text \<open>
  The on-chain membership check, \<open>programs/passkeyauth/src/merkle.rs\<close>. The hash
  \<open>solana_keccak_hasher::hashv\<close> is a parameter \<open>hashv\<close>: from a list of byte slices to 32
  bytes. The program is compiled with \<open>overflow-checks = true\<close>, so a shift by 64 or more
  panics.
\<close>

section \<open>Model\<close>

type_synonym node = "32 bytes"
type_synonym hashv = "u8 list list \<Rightarrow> node"

definition oc_hash_pair :: "hashv \<Rightarrow> node \<Rightarrow> node \<Rightarrow> node" where
  "oc_hash_pair hashv l r = hashv [arr_list l, arr_list r]"

fun oc_root_loop :: "hashv \<Rightarrow> u64 \<Rightarrow> nat \<Rightarrow> node \<Rightarrow> node list \<Rightarrow> node panicking" where
  "oc_root_loop hashv index_bits level node [] = Some node"
| "oc_root_loop hashv index_bits level node (sibling # proof_rest) =
     (case shr_u64 Checked index_bits level of
        None \<Rightarrow> None
      | Some x \<Rightarrow>
          let go_right = (x AND 1 = 1) in
          oc_root_loop hashv index_bits (Suc level)
            (if go_right then oc_hash_pair hashv sibling node
             else oc_hash_pair hashv node sibling) proof_rest)"

definition oc_compute_root :: "hashv \<Rightarrow> node \<Rightarrow> node list \<Rightarrow> u64 \<Rightarrow> node panicking" where
  "oc_compute_root hashv leaf path index_bits = oc_root_loop hashv index_bits 0 leaf path"

definition oc_verify :: "hashv \<Rightarrow> node \<Rightarrow> node list \<Rightarrow> u64 \<Rightarrow> node \<Rightarrow> bool panicking" where
  "oc_verify hashv leaf path index_bits root =
     map_option (\<lambda>r. r = root) (oc_compute_root hashv leaf path index_bits)"

section \<open>It is a membership check\<close>

lemma oc_root_loop_fold:
  "level + length ss \<le> 64 \<Longrightarrow>
     oc_root_loop hashv bits level n ss = Some (fold_path (oc_hash_pair hashv) (bit bits) level n ss)"
  by (induction ss arbitrary: level n) (auto simp: drop_bit_and_one_eq Let_def)

interpretation oc: merkle_verifier "oc_hash_pair hashv" "oc_compute_root hashv" "oc_verify hashv"
  for hashv
  by unfold_locales (simp_all add: oc_compute_root_def oc_verify_def oc_root_loop_fold)

lemma oc_root_loop_panics:
  "level \<le> 64 \<Longrightarrow> 64 < level + length ss \<Longrightarrow> oc_root_loop hashv bits level n ss = None"
proof (induction ss arbitrary: level n)
  case Nil
  then show ?case by simp
next
  case (Cons s ss)
  then show ?case by (cases "level = 64") (auto simp: Let_def)
qed

section \<open>Properties\<close>

text \<open>
  The on-chain root computation is the reference climb for proofs of at most 64 nodes
  and panics on longer ones.
\<close>

lemma oc_compute_root_spec:
  "oc_compute_root hashv leaf path bits =
     (if length path \<le> 64 then Some (fold_path (oc_hash_pair hashv) (bit bits) 0 leaf path) else None)"
  by (cases "length path \<le> 64")
    (simp_all add: oc_compute_root_def oc_root_loop_panics oc_root_loop_fold)

end
