(* ===== verification/Precompile.thy ===== *)
theory Precompile
  imports Arrays "HOL-Library.Monad_Syntax"
begin

text \<open>
  Parsing of the secp256r1 precompile instruction, \<open>programs/passkeyauth/src/passkey.rs\<close>:
  a two-byte header, a block of seven little-endian 16-bit offsets, and then the data the
  offsets point into. Every read of the source goes through \<open>get\<close>, so the model returns
  \<open>None\<close> where the source does and never reads out of range.
\<close>

section \<open>Model\<close>

definition P256_PUBKEY_LEN :: nat where "P256_PUBKEY_LEN = 33"
definition IX_INDEX_SELF :: u16 where "IX_INDEX_SELF = 65535"
definition OFFSETS_LEN :: nat where "OFFSETS_LEN = 14"

lemmas precompile_consts = P256_PUBKEY_LEN_def IX_INDEX_SELF_def OFFSETS_LEN_def

record verified_credential =
  vc_pubkey :: "u8 list"
  vc_message :: "u8 list"

text \<open>\<open>u16::from_le_bytes\<close> and \<open>u16::to_le_bytes\<close>.\<close>

definition u16_from_le :: "u8 \<Rightarrow> u8 \<Rightarrow> u16" where
  "u16_from_le b0 b1 = ucast b0 OR push_bit 8 (ucast b1)"

definition u16_to_le :: "u16 \<Rightarrow> u8 list" where
  "u16_to_le v = [ucast v, ucast (drop_bit 8 v)]"

definition read_u16 :: "u8 list \<Rightarrow> nat \<Rightarrow> u16 option" where
  "read_u16 data at = do {
     b \<leftarrow> slice_get data at (at + 2);
     Some (u16_from_le (b ! 0) (b ! 1)) }"

definition extract_embedded :: "u8 list \<Rightarrow> verified_credential option" where
  "extract_embedded data = do {
     num_sigs \<leftarrow> elem_get data 0;
     if num_sigs = 0 then None else do {
       let base = 2;
       sig_off \<leftarrow> read_u16 data base;
       sig_ix \<leftarrow> read_u16 data (base + 2);
       pk_off \<leftarrow> map_option unat (read_u16 data (base + 4));
       pk_ix \<leftarrow> read_u16 data (base + 6);
       msg_off \<leftarrow> map_option unat (read_u16 data (base + 8));
       msg_size \<leftarrow> map_option unat (read_u16 data (base + 10));
       msg_ix \<leftarrow> read_u16 data (base + 12);
       if sig_ix \<noteq> IX_INDEX_SELF \<or> pk_ix \<noteq> IX_INDEX_SELF \<or> msg_ix \<noteq> IX_INDEX_SELF then None
       else if base + OFFSETS_LEN > length data then None
       else do {
         pubkey \<leftarrow> slice_get data pk_off (pk_off + P256_PUBKEY_LEN);
         message \<leftarrow> slice_get data msg_off (msg_off + msg_size);
         Some \<lparr>vc_pubkey = pubkey, vc_message = message\<rparr> } } }"

text \<open>
  The encoder of the module's tests: header, offsets block, a 64-byte signature, the key
  and the message, with the offsets written in afterwards. \<open>as u16\<close> truncates.
\<close>

definition write_u16 :: "u8 list \<Rightarrow> nat \<Rightarrow> u16 \<Rightarrow> u8 list" where
  "write_u16 d at v = d[at := u16_to_le v ! 0, Suc at := u16_to_le v ! 1]"

definition blob :: "u8 list \<Rightarrow> u8 list \<Rightarrow> u8 list" where
  "blob pubkey message =
     (let d = [1, 0];
          offsets_at = length d;
          d = d @ replicate OFFSETS_LEN 0;
          sig_off = of_nat (length d) :: u16;
          d = d @ replicate 64 7;
          pk_off = of_nat (length d) :: u16;
          d = d @ pubkey;
          msg_off = of_nat (length d) :: u16;
          d = d @ message;
          d = write_u16 d (offsets_at + 0) sig_off;
          d = write_u16 d (offsets_at + 2) IX_INDEX_SELF;
          d = write_u16 d (offsets_at + 4) pk_off;
          d = write_u16 d (offsets_at + 6) IX_INDEX_SELF;
          d = write_u16 d (offsets_at + 8) msg_off;
          d = write_u16 d (offsets_at + 10) (of_nat (length message));
          d = write_u16 d (offsets_at + 12) IX_INDEX_SELF
      in d)"

section \<open>Reading and writing 16-bit fields\<close>

lemma u16_le_roundtrip: "u16_from_le (ucast v) (ucast (drop_bit 8 v)) = v"
proof (rule bit_word_eqI)
  fix n assume "n < LENGTH(16)"
  then show "bit (u16_from_le (ucast v) (ucast (drop_bit 8 v))) n = bit v n"
    by (auto simp: u16_from_le_def bit_or_iff bit_push_bit_iff bit_ucast_iff bit_drop_bit_eq
        simp del: push_bit_numeral)
qed

text \<open>The field at a position, where the data reaches that far.\<close>

definition u16_at :: "u8 list \<Rightarrow> nat \<Rightarrow> u16" where
  "u16_at data k = u16_from_le (data ! k) (data ! Suc k)"

lemma read_u16_eq: "read_u16 data at = (if at + 2 \<le> length data then Some (u16_at data at) else None)"
  by (simp add: read_u16_def slice_get_def u16_at_def)

lemma write_u16_frame [simp]:
  "length (write_u16 d at v) = length d"
  "Suc at < k \<Longrightarrow> drop k (write_u16 d at v) = drop k d"
  "k < at \<Longrightarrow> write_u16 d at v ! k = d ! k"
  by (simp_all add: write_u16_def)

lemma u16_at_write_same [simp]: "at + 2 \<le> length d \<Longrightarrow> u16_at (write_u16 d at v) at = v"
  by (simp add: u16_at_def write_u16_def u16_to_le_def u16_le_roundtrip)

lemma u16_at_write_other [simp]:
  "at + 2 \<le> k \<or> k + 2 \<le> at \<Longrightarrow> u16_at (write_u16 d at v) k = u16_at d k"
  by (auto simp: u16_at_def write_u16_def)

section \<open>What parsing accepts\<close>

lemma extract_embedded_iff:
  "extract_embedded data = Some vc \<longleftrightarrow>
     2 + OFFSETS_LEN \<le> length data \<and> data ! 0 \<noteq> 0 \<and>
     u16_at data 4 = IX_INDEX_SELF \<and> u16_at data 8 = IX_INDEX_SELF \<and>
     u16_at data 14 = IX_INDEX_SELF \<and>
     unat (u16_at data 6) + P256_PUBKEY_LEN \<le> length data \<and>
     unat (u16_at data 10) + unat (u16_at data 12) \<le> length data \<and>
     vc_pubkey vc = take P256_PUBKEY_LEN (drop (unat (u16_at data 6)) data) \<and>
     vc_message vc = take (unat (u16_at data 12)) (drop (unat (u16_at data 10)) data)"
proof (cases "2 + OFFSETS_LEN \<le> length data")
  case True
  then show ?thesis
    by (auto simp: extract_embedded_def read_u16_eq elem_get_def slice_get_def
        OFFSETS_LEN_def Let_def split: if_splits)
next
  case False
  then show ?thesis
    by (auto simp: extract_embedded_def read_u16_eq elem_get_def OFFSETS_LEN_def Let_def
        split: if_splits)
qed

lemma extract_blob:
  assumes "length pubkey = P256_PUBKEY_LEN" and "length message < 2 ^ 16"
  shows "extract_embedded (blob pubkey message) = Some \<lparr>vc_pubkey = pubkey, vc_message = message\<rparr>"
proof -
  define d0 where "d0 = [1, 0] @ replicate OFFSETS_LEN 0 @ replicate 64 7 @ pubkey @ message"
  define w where "w = (\<lambda>k v d. write_u16 d k v)"
  have d0: "length d0 = 113 + length message" "d0 ! 0 = 1"
      "drop 80 d0 = pubkey @ message" "drop 113 d0 = message"
    using assms(1) by (simp_all add: d0_def precompile_consts)
  have blob: "blob pubkey message =
      w 14 IX_INDEX_SELF (w 12 (of_nat (length message)) (w 10 113 (w 8 IX_INDEX_SELF (w 6 80
        (w 4 IX_INDEX_SELF (w 2 16 d0))))))"
    using assms(1)
    by (simp add: blob_def w_def d0_def precompile_consts Let_def flip: numeral_2_eq_2)
  have len: "unat (of_nat (length message) :: u16) = length message"
    using assms(2) by (simp add: unat_of_nat)
  show ?thesis
    unfolding blob extract_embedded_iff w_def using assms(1) d0 len
    by (simp add: P256_PUBKEY_LEN_def OFFSETS_LEN_def)
qed

section \<open>Properties\<close>

text \<open>
  C15 What parsing accepts: \<open>extract_embedded\<close> returns a credential if and only if the data
  holds the 16-byte header and offsets block, names at least one signature, refers to its
  own instruction in all three indices, and holds the key and the message where the
  offsets say; the credential is then exactly those 33 and \<open>msg_size\<close> bytes.
\<close>

theorem extract_embedded_spec:
  "extract_embedded data = Some vc \<longleftrightarrow>
     2 + OFFSETS_LEN \<le> length data \<and> data ! 0 \<noteq> 0 \<and>
     u16_at data 4 = IX_INDEX_SELF \<and> u16_at data 8 = IX_INDEX_SELF \<and>
     u16_at data 14 = IX_INDEX_SELF \<and>
     unat (u16_at data 6) + P256_PUBKEY_LEN \<le> length data \<and>
     unat (u16_at data 10) + unat (u16_at data 12) \<le> length data \<and>
     vc_pubkey vc = take P256_PUBKEY_LEN (drop (unat (u16_at data 6)) data) \<and>
     vc_message vc = take (unat (u16_at data 12)) (drop (unat (u16_at data 10)) data)"
  by (rule extract_embedded_iff)

text \<open>
  C31 Round trip: the encoder's output for a 33-byte key and a message of at most 65535
  bytes parses back to that key and message.
\<close>

theorem blob_roundtrip:
  assumes "length pubkey = P256_PUBKEY_LEN" and "length message < 2 ^ 16"
  shows "extract_embedded (blob pubkey message) = Some \<lparr>vc_pubkey = pubkey, vc_message = message\<rparr>"
  using assms by (rule extract_blob)

theorem blob_roundtrip_witness:
  "extract_embedded (blob (replicate 33 171) [108, 111, 103]) =
     Some \<lparr>vc_pubkey = replicate 33 171, vc_message = [108, 111, 103]\<rparr>"
  by (rule blob_roundtrip) (simp_all add: P256_PUBKEY_LEN_def)

end
