(* ===== verification/Onchain_State.thy ===== *)
theory Onchain_State
  imports Merkle_Onchain Precompile
begin

text \<open>
  The data of the on-chain program: the constants, errors and account layouts of
  \<open>programs/passkeyauth/src/{constants,errors,state}.rs\<close>, the slot operations of
  \<open>Identity\<close>, and the well-formedness invariant of its two tables. An on-chain
  \<open>Pubkey\<close> is 32 bytes.
\<close>

section \<open>Constants\<close>

type_synonym address = "32 bytes"

definition IDENTITY_SEED :: "u8 list" where "IDENTITY_SEED = map of_char ''identity''"
definition ISSUER_SEED :: "u8 list" where "ISSUER_SEED = map of_char ''issuer''"
definition NULLIFIER_SEED :: "u8 list" where "NULLIFIER_SEED = map of_char ''nullifier''"

definition MAX_PASSKEYS :: nat where "MAX_PASSKEYS = 4"
definition MAX_ATTESTATIONS :: nat where "MAX_ATTESTATIONS = 4"
definition MAX_MERKLE_DEPTH :: nat where "MAX_MERKLE_DEPTH = 20"
definition LABEL_LEN :: nat where "LABEL_LEN = 16"

text \<open>The 32 bytes that \<open>Secp256r1SigVerify1111111111111111111111111\<close> denotes in base 58.\<close>

definition SECP256R1_PROGRAM_ID :: address where
  "SECP256R1_PROGRAM_ID = arr_of
     [6, 146, 13, 236, 47, 234, 113, 181, 183, 35, 129, 77, 116, 45, 169, 3,
      28, 131, 231, 95, 219, 121, 93, 86, 142, 117, 71, 128, 32, 0, 0, 0]"

section \<open>Errors\<close>

datatype passkey_error =
    MathOverflow
  | PassKeyTableFull
  | AttestationTableFull
  | PassKeyNotFound
  | NotOwner
  | MissingPasskeyVerification
  | PasskeyMismatch
  | MalformedPrecompile
  | InvalidMerkleProof
  | ProofTooDeep
  | NullifierAlreadyUsed
  | NotIssuerAuthority

section \<open>Accounts\<close>

record passkey =
  pk_pubkey :: "33 bytes"
  pk_label :: "16 bytes"
  pk_added_ts :: i64
  pk_is_active :: bool

record attestation =
  at_issuer :: address
  at_schema_id :: "32 bytes"
  at_claimed_ts :: i64
  at_is_active :: bool

text \<open>
  \<open>PassKey::default()\<close>, and the derived \<open>Attestation::default()\<close>: every field is the
  default of its type, which for a \<open>Pubkey\<close> is 32 zero bytes.
\<close>

definition passkey_default :: passkey where
  "passkey_default =
     \<lparr>pk_pubkey = arr_fill 0, pk_label = arr_fill 0, pk_added_ts = 0, pk_is_active = False\<rparr>"

definition attestation_default :: attestation where
  "attestation_default =
     \<lparr>at_issuer = arr_fill 0, at_schema_id = arr_fill 0, at_claimed_ts = 0, at_is_active = False\<rparr>"

record identity =
  id_owner :: address
  id_passkey_count :: u8
  id_passkeys :: "(passkey, 4) arr"
  id_attestation_count :: u8
  id_attestations :: "(attestation, 4) arr"
  id_bump :: u8

record issuer =
  iss_authority :: address
  iss_schema_id :: "32 bytes"
  iss_merkle_root :: "32 bytes"
  iss_attestation_count :: u64
  iss_bump :: u8

record nullifier =
  nul_issuer :: address
  nul_hash :: "32 bytes"
  nul_bump :: u8

text \<open>\<open>impl Identity\<close>.\<close>

definition free_passkey_slot :: "identity \<Rightarrow> nat option" where
  "free_passkey_slot i = arr_position (\<lambda>p. \<not> pk_is_active p) (id_passkeys i)"

definition free_attestation_slot :: "identity \<Rightarrow> nat option" where
  "free_attestation_slot i = arr_position (\<lambda>a. \<not> at_is_active a) (id_attestations i)"

section \<open>The table invariant\<close>

text \<open>
  Each counter is the number of live entries of its table, as the comments of the struct
  say.
\<close>

definition identity_wf :: "identity \<Rightarrow> bool" where
  "identity_wf i \<longleftrightarrow>
     unat (id_passkey_count i) = arr_count pk_is_active (id_passkeys i) \<and>
     unat (id_attestation_count i) = arr_count at_is_active (id_attestations i)"

lemma passkey_count_le: "identity_wf i \<Longrightarrow> unat (id_passkey_count i) \<le> MAX_PASSKEYS"
  using arr_count_le [of pk_is_active "id_passkeys i"] by (simp add: identity_wf_def MAX_PASSKEYS_def)

lemma attestation_count_le: "identity_wf i \<Longrightarrow> unat (id_attestation_count i) \<le> MAX_ATTESTATIONS"
  using arr_count_le [of at_is_active "id_attestations i"]
  by (simp add: identity_wf_def MAX_ATTESTATIONS_def)

lemma free_passkey_slot_lt: "free_passkey_slot i = Some s \<Longrightarrow> s < MAX_PASSKEYS"
  using arr_position_lt [of _ "id_passkeys i" s] by (simp add: free_passkey_slot_def MAX_PASSKEYS_def)

lemma free_attestation_slot_lt: "free_attestation_slot i = Some s \<Longrightarrow> s < MAX_ATTESTATIONS"
  using arr_position_lt [of _ "id_attestations i" s]
  by (simp add: free_attestation_slot_def MAX_ATTESTATIONS_def)

text \<open>In a well-formed identity the counter tells whether the table is full.\<close>

lemma free_passkey_slot_None_iff:
  "identity_wf i \<Longrightarrow> free_passkey_slot i = None \<longleftrightarrow> unat (id_passkey_count i) = MAX_PASSKEYS"
  by (simp add: free_passkey_slot_def arr_position_None_iff_full identity_wf_def MAX_PASSKEYS_def)

lemma free_attestation_slot_None_iff:
  "identity_wf i \<Longrightarrow> free_attestation_slot i = None \<longleftrightarrow>
     unat (id_attestation_count i) = MAX_ATTESTATIONS"
  by (simp add: free_attestation_slot_def arr_position_None_iff_full identity_wf_def
      MAX_ATTESTATIONS_def)

text \<open>So the counters never overflow.\<close>

lemma checked_add_small:
  "unat (c :: u8) \<le> 4 \<Longrightarrow> checked_add c 1 = Some (c + 1) \<and> unat (c + 1) = Suc (unat c)"
  by (simp add: checked_add_def unat_word_ariths)

lemma passkey_count_add:
  "identity_wf i \<Longrightarrow> checked_add (id_passkey_count i) 1 = Some (id_passkey_count i + 1) \<and>
     unat (id_passkey_count i + 1) = Suc (unat (id_passkey_count i))"
  using checked_add_small passkey_count_le [of i] by (simp add: MAX_PASSKEYS_def)

lemma attestation_count_add:
  "identity_wf i \<Longrightarrow> checked_add (id_attestation_count i) 1 = Some (id_attestation_count i + 1) \<and>
     unat (id_attestation_count i + 1) = Suc (unat (id_attestation_count i))"
  using checked_add_small attestation_count_le [of i] by (simp add: MAX_ATTESTATIONS_def)

end
