(* ===== verification/Program.thy ===== *)
theory Program
  imports Onchain_State
begin

text \<open>
  The on-chain program, \<open>programs/passkeyauth/src/lib.rs\<close>: the six instruction handlers,
  the account constraints they are declared with, and their effect on the ledger.

  What the Solana runtime and the Anchor framework provide is a parameter: deriving program
  addresses, hashing, the clock, the instructions of the transaction, and whether a payer
  can fund a new account. The ledger holds the accounts that the program owns. Anchor's
  checks follow its documentation: an account is first deserialised (its owner and
  discriminator are checked), then \<open>init\<close> accounts are created, then the remaining
  constraints of each field are checked; any error aborts the instruction and nothing of
  its effect stays.
\<close>

section \<open>Runtime and ledger\<close>

record runtime =
  rt_find_pda :: "u8 list list \<Rightarrow> address \<times> u8"
  rt_create_pda :: "u8 list list \<Rightarrow> u8 \<Rightarrow> address option"
  rt_hashv :: hashv
  rt_hash :: "u8 list \<Rightarrow> 32 bytes"
  rt_instructions_id :: address
  rt_system_id :: address

record tx_env =
  tx_clock :: "i64 option"
  tx_load_ix :: "nat \<Rightarrow> (address \<times> u8 list) option"
  tx_can_pay :: "address \<Rightarrow> nat \<Rightarrow> bool"

record account_meta =
  am_key :: address
  am_signer :: bool
  am_writable :: bool

datatype account = AIdentity identity | AIssuer issuer | ANullifier nullifier

type_synonym ledger = "address \<rightharpoonup> account"

datatype anchor_error =
    AccountNotSigner
  | AccountNotInitialized
  | AccountDiscriminatorMismatch
  | AccountAlreadyInUse
  | InsufficientFunds
  | InvalidProgramId
  | ConstraintMut
  | ConstraintSeeds
  | ConstraintAddress
  | SysvarError

datatype program_error = Custom passkey_error | Anchor anchor_error | ProgramPanicked

datatype event =
    IdentityCreated address address
  | PassKeyAdded address u8
  | PassKeyVerified address u8 "32 bytes"
  | IssuerRegistered address address
  | RootUpdated address "32 bytes"
  | AttestationClaimed address address "32 bytes"

text \<open>Account sizes: the discriminator and the serialised fields (\<open>InitSpace\<close>).\<close>

definition identity_space :: nat where
  "identity_space = 8 + (32 + 1 + MAX_PASSKEYS * (P256_PUBKEY_LEN + LABEL_LEN + 8 + 1)
     + 1 + MAX_ATTESTATIONS * (32 + 32 + 8 + 1) + 1)"

definition issuer_space :: nat where "issuer_space = 8 + (32 + 32 + 32 + 8 + 1)"
definition nullifier_space :: nat where "nullifier_space = 8 + (32 + 32 + 1)"

section \<open>Anchor's account checks\<close>

definition load_signer :: "account_meta \<Rightarrow> program_error + unit" where
  "load_signer m = require (am_signer m) (Anchor AccountNotSigner)"

definition load_system :: "runtime \<Rightarrow> account_meta \<Rightarrow> program_error + unit" where
  "load_system rt m = require (am_key m = rt_system_id rt) (Anchor InvalidProgramId)"

definition load_identity :: "ledger \<Rightarrow> account_meta \<Rightarrow> program_error + identity" where
  "load_identity L m = (case L (am_key m) of
     None \<Rightarrow> Inl (Anchor AccountNotInitialized)
   | Some (AIdentity i) \<Rightarrow> Inr i
   | Some _ \<Rightarrow> Inl (Anchor AccountDiscriminatorMismatch))"

definition load_issuer :: "ledger \<Rightarrow> account_meta \<Rightarrow> program_error + issuer" where
  "load_issuer L m = (case L (am_key m) of
     None \<Rightarrow> Inl (Anchor AccountNotInitialized)
   | Some (AIssuer i) \<Rightarrow> Inr i
   | Some _ \<Rightarrow> Inl (Anchor AccountDiscriminatorMismatch))"

definition check_mut :: "account_meta \<Rightarrow> program_error + unit" where
  "check_mut m = require (am_writable m) (Anchor ConstraintMut)"

text \<open>\<open>seeds = ..., bump = <stored bump>\<close>.\<close>

definition check_seeds :: "runtime \<Rightarrow> u8 list list \<Rightarrow> u8 \<Rightarrow> account_meta \<Rightarrow> program_error + unit" where
  "check_seeds rt seeds bump m =
     require (rt_create_pda rt seeds bump = Some (am_key m)) (Anchor ConstraintSeeds)"

text \<open>\<open>init, payer = ..., space = ..., seeds = ..., bump\<close>; returns the bump found.\<close>

definition init_pda ::
    "runtime \<Rightarrow> tx_env \<Rightarrow> ledger \<Rightarrow> account_meta \<Rightarrow> u8 list list \<Rightarrow> account_meta \<Rightarrow> nat \<Rightarrow>
     program_error + u8" where
  "init_pda rt tx L m seeds payer space =
     (let (pda, bump) = rt_find_pda rt seeds in
      res_bind (require (am_key m = pda) (Anchor ConstraintSeeds)) (\<lambda>_.
      res_bind (require (L (am_key m) = None) (Anchor AccountAlreadyInUse)) (\<lambda>_.
      res_bind (require (tx_can_pay tx (am_key payer) space) (Anchor InsufficientFunds)) (\<lambda>_.
      res_bind (check_mut m) (\<lambda>_. Inr bump)))))"

definition identity_seeds :: "address \<Rightarrow> u8 list list" where
  "identity_seeds owner = [IDENTITY_SEED, arr_list owner]"

definition issuer_seeds :: "address \<Rightarrow> u8 list list" where
  "issuer_seeds authority = [ISSUER_SEED, arr_list authority]"

definition nullifier_seeds :: "address \<Rightarrow> 32 bytes \<Rightarrow> u8 list list" where
  "nullifier_seeds iss hash = [NULLIFIER_SEED, arr_list iss, arr_list hash]"

section \<open>Account contexts\<close>

text \<open>\<open>CreateIdentity\<close>: the bump of the new identity.\<close>

definition ctx_create_identity ::
    "runtime \<Rightarrow> tx_env \<Rightarrow> ledger \<Rightarrow> account_meta \<Rightarrow> account_meta \<Rightarrow> account_meta \<Rightarrow> program_error + u8"
where
  "ctx_create_identity rt tx L m_identity m_owner m_system =
     res_bind (load_signer m_owner) (\<lambda>_.
     res_bind (load_system rt m_system) (\<lambda>_.
     res_bind (init_pda rt tx L m_identity (identity_seeds (am_key m_owner)) m_owner identity_space) (\<lambda>bump.
     res_bind (check_mut m_owner) (\<lambda>_. Inr bump))))"

text \<open>\<open>ManageIdentity\<close>: the loaded identity.\<close>

definition ctx_manage_identity ::
    "runtime \<Rightarrow> ledger \<Rightarrow> account_meta \<Rightarrow> account_meta \<Rightarrow> program_error + identity" where
  "ctx_manage_identity rt L m_identity m_owner =
     res_bind (load_identity L m_identity) (\<lambda>ident.
     res_bind (load_signer m_owner) (\<lambda>_.
     res_bind (check_seeds rt (identity_seeds (am_key m_owner)) (id_bump ident) m_identity) (\<lambda>_.
     res_bind (check_mut m_identity) (\<lambda>_.
     res_bind (require (id_owner ident = am_key m_owner) (Custom NotOwner)) (\<lambda>_. Inr ident)))))"

definition ctx_verify_passkey ::
    "runtime \<Rightarrow> ledger \<Rightarrow> account_meta \<Rightarrow> account_meta \<Rightarrow> account_meta \<Rightarrow> program_error + identity" where
  "ctx_verify_passkey rt L m_identity m_owner m_instructions =
     res_bind (load_identity L m_identity) (\<lambda>ident.
     res_bind (load_signer m_owner) (\<lambda>_.
     res_bind (check_seeds rt (identity_seeds (am_key m_owner)) (id_bump ident) m_identity) (\<lambda>_.
     res_bind (require (id_owner ident = am_key m_owner) (Custom NotOwner)) (\<lambda>_.
     res_bind (require (am_key m_instructions = rt_instructions_id rt) (Anchor ConstraintAddress)) (\<lambda>_.
     Inr ident)))))"

definition ctx_register_issuer ::
    "runtime \<Rightarrow> tx_env \<Rightarrow> ledger \<Rightarrow> account_meta \<Rightarrow> account_meta \<Rightarrow> account_meta \<Rightarrow> program_error + u8"
where
  "ctx_register_issuer rt tx L m_issuer m_authority m_system =
     res_bind (load_signer m_authority) (\<lambda>_.
     res_bind (load_system rt m_system) (\<lambda>_.
     res_bind (init_pda rt tx L m_issuer (issuer_seeds (am_key m_authority)) m_authority issuer_space) (\<lambda>bump.
     res_bind (check_mut m_authority) (\<lambda>_. Inr bump))))"

definition ctx_admin_issuer ::
    "runtime \<Rightarrow> ledger \<Rightarrow> account_meta \<Rightarrow> account_meta \<Rightarrow> program_error + issuer" where
  "ctx_admin_issuer rt L m_issuer m_authority =
     res_bind (load_issuer L m_issuer) (\<lambda>iss.
     res_bind (load_signer m_authority) (\<lambda>_.
     res_bind (check_seeds rt (issuer_seeds (am_key m_authority)) (iss_bump iss) m_issuer) (\<lambda>_.
     res_bind (check_mut m_issuer) (\<lambda>_.
     res_bind (require (iss_authority iss = am_key m_authority) (Custom NotIssuerAuthority)) (\<lambda>_.
     Inr iss)))))"

text \<open>\<open>ClaimAttestation\<close>: the identity, the issuer and the bump of the new nullifier.\<close>

definition ctx_claim_attestation ::
    "runtime \<Rightarrow> tx_env \<Rightarrow> ledger \<Rightarrow> account_meta \<Rightarrow> account_meta \<Rightarrow> account_meta \<Rightarrow> account_meta \<Rightarrow>
     account_meta \<Rightarrow> 32 bytes \<Rightarrow> program_error + (identity \<times> issuer \<times> u8)"
where
  "ctx_claim_attestation rt tx L m_identity m_issuer m_nullifier m_owner m_system nullifier_arg =
     res_bind (load_identity L m_identity) (\<lambda>ident.
     res_bind (load_issuer L m_issuer) (\<lambda>iss.
     res_bind (load_signer m_owner) (\<lambda>_.
     res_bind (load_system rt m_system) (\<lambda>_.
     res_bind (init_pda rt tx L m_nullifier (nullifier_seeds (am_key m_issuer) nullifier_arg)
       m_owner nullifier_space) (\<lambda>bump.
     res_bind (check_seeds rt (identity_seeds (am_key m_owner)) (id_bump ident) m_identity) (\<lambda>_.
     res_bind (check_mut m_identity) (\<lambda>_.
     res_bind (require (id_owner ident = am_key m_owner) (Custom NotOwner)) (\<lambda>_.
     res_bind (check_mut m_issuer) (\<lambda>_.
     res_bind (check_mut m_owner) (\<lambda>_. Inr (ident, iss, bump)))))))))))"

section \<open>Handlers\<close>

definition create_identity :: "address \<Rightarrow> u8 \<Rightarrow> identity" where
  "create_identity owner bump =
     \<lparr>id_owner = owner, id_passkey_count = 0, id_passkeys = arr_fill passkey_default,
      id_attestation_count = 0, id_attestations = arr_fill attestation_default, id_bump = bump\<rparr>"

text \<open>Returns the updated identity and the slot, which the event reports.\<close>

definition add_passkey ::
    "tx_env \<Rightarrow> identity \<Rightarrow> 33 bytes \<Rightarrow> 16 bytes \<Rightarrow> program_error + (identity \<times> nat)" where
  "add_passkey tx ident pubkey label =
     res_bind (ok_or (tx_clock tx) (Anchor SysvarError)) (\<lambda>now.
     res_bind (ok_or (free_passkey_slot ident) (Custom PassKeyTableFull)) (\<lambda>slot.
     let ident = ident\<lparr>id_passkeys := arr_set (id_passkeys ident) slot
           \<lparr>pk_pubkey = pubkey, pk_label = label, pk_added_ts = now, pk_is_active = True\<rparr>\<rparr> in
     res_bind (ok_or (checked_add (id_passkey_count ident) 1) (Custom MathOverflow)) (\<lambda>count.
     Inr (ident\<lparr>id_passkey_count := count\<rparr>, slot))))"

definition MAX_TX_INSTRUCTIONS :: nat where "MAX_TX_INSTRUCTIONS = 16"

text \<open>
  The scan of \<open>verify_passkey\<close> over the instruction indices: stop where loading fails, skip
  other programs, and let the first secp256r1 instruction decide.
\<close>

fun scan_instructions ::
    "runtime \<Rightarrow> tx_env \<Rightarrow> passkey \<Rightarrow> nat list \<Rightarrow> program_error + 32 bytes option" where
  "scan_instructions rt tx cred [] = Inr None"
| "scan_instructions rt tx cred (i # is) =
     (case tx_load_ix tx i of
        None \<Rightarrow> Inr None
      | Some (program_id, data) \<Rightarrow>
          if program_id \<noteq> SECP256R1_PROGRAM_ID then scan_instructions rt tx cred is
          else
            res_bind (ok_or (extract_embedded data) (Custom MalformedPrecompile)) (\<lambda>vc.
            res_bind (require (vc_pubkey vc = arr_list (pk_pubkey cred)) (Custom PasskeyMismatch)) (\<lambda>_.
            Inr (Some (rt_hash rt (vc_message vc))))))"

definition verify_passkey :: "runtime \<Rightarrow> tx_env \<Rightarrow> identity \<Rightarrow> u8 \<Rightarrow> program_error + 32 bytes" where
  "verify_passkey rt tx ident index =
     res_bind (ok_or (case arr_get (id_passkeys ident) (unat index) of
                        None \<Rightarrow> None
                      | Some p \<Rightarrow> if pk_is_active p then Some p else None)
                 (Custom PassKeyNotFound)) (\<lambda>cred.
     res_bind (scan_instructions rt tx cred [0..<MAX_TX_INSTRUCTIONS]) (\<lambda>verified_message.
     ok_or verified_message (Custom MissingPasskeyVerification)))"

definition register_issuer :: "address \<Rightarrow> 32 bytes \<Rightarrow> 32 bytes \<Rightarrow> u8 \<Rightarrow> issuer" where
  "register_issuer authority schema_id merkle_root bump =
     \<lparr>iss_authority = authority, iss_schema_id = schema_id, iss_merkle_root = merkle_root,
      iss_attestation_count = 0, iss_bump = bump\<rparr>"

definition update_root :: "issuer \<Rightarrow> 32 bytes \<Rightarrow> issuer" where
  "update_root iss merkle_root = iss\<lparr>iss_merkle_root := merkle_root\<rparr>"

text \<open>Returns the new nullifier and the updated identity and issuer.\<close>

definition claim_attestation ::
    "runtime \<Rightarrow> tx_env \<Rightarrow> identity \<Rightarrow> issuer \<Rightarrow> address \<Rightarrow> u8 \<Rightarrow>
     32 bytes \<Rightarrow> 32 bytes list \<Rightarrow> u64 \<Rightarrow> 32 bytes \<Rightarrow>
     program_error + (nullifier \<times> identity \<times> issuer)" where
  "claim_attestation rt tx ident iss issuer_key nul_bump_found leaf path index_bits nullifier_arg =
     res_bind (require (length path \<le> MAX_MERKLE_DEPTH) (Custom ProofTooDeep)) (\<lambda>_.
     res_bind (ok_or (oc_verify (rt_hashv rt) leaf path index_bits (iss_merkle_root iss)) ProgramPanicked) (\<lambda>valid.
     res_bind (require valid (Custom InvalidMerkleProof)) (\<lambda>_.
     let nul = \<lparr>nul_issuer = issuer_key, nul_hash = nullifier_arg, nul_bump = nul_bump_found\<rparr> in
     res_bind (ok_or (tx_clock tx) (Anchor SysvarError)) (\<lambda>now.
     res_bind (ok_or (free_attestation_slot ident) (Custom AttestationTableFull)) (\<lambda>slot.
     let ident = ident\<lparr>id_attestations := arr_set (id_attestations ident) slot
           \<lparr>at_issuer = issuer_key, at_schema_id = iss_schema_id iss, at_claimed_ts = now,
            at_is_active = True\<rparr>\<rparr> in
     res_bind (ok_or (checked_add (id_attestation_count ident) 1) (Custom MathOverflow)) (\<lambda>count.
     let ident = ident\<lparr>id_attestation_count := count\<rparr> in
     res_bind (ok_or (checked_add (iss_attestation_count iss) 1) (Custom MathOverflow)) (\<lambda>icount.
     Inr (nul, ident, iss\<lparr>iss_attestation_count := icount\<rparr>))))))))"

section \<open>Instructions\<close>

text \<open>The accounts are in the order of the contexts; then come the arguments.\<close>

datatype instr =
    CreateIdentity account_meta account_meta account_meta
  | AddPasskey account_meta account_meta "33 bytes" "16 bytes"
  | VerifyPasskey account_meta account_meta account_meta u8
  | RegisterIssuer account_meta account_meta account_meta "32 bytes" "32 bytes"
  | UpdateRoot account_meta account_meta "32 bytes"
  | ClaimAttestation account_meta account_meta account_meta account_meta account_meta
      "32 bytes" "32 bytes list" u64 "32 bytes"

fun exec :: "runtime \<Rightarrow> tx_env \<Rightarrow> ledger \<Rightarrow> instr \<Rightarrow> program_error + (ledger \<times> event)" where
  "exec rt tx L (CreateIdentity m_identity m_owner m_system) =
     res_bind (ctx_create_identity rt tx L m_identity m_owner m_system) (\<lambda>bump.
     Inr (L(am_key m_identity \<mapsto> AIdentity (create_identity (am_key m_owner) bump)),
          IdentityCreated (am_key m_identity) (am_key m_owner)))"
| "exec rt tx L (AddPasskey m_identity m_owner pubkey label) =
     res_bind (ctx_manage_identity rt L m_identity m_owner) (\<lambda>ident.
     res_bind (add_passkey tx ident pubkey label) (\<lambda>(ident', slot).
     Inr (L(am_key m_identity \<mapsto> AIdentity ident'), PassKeyAdded (am_key m_identity) (of_nat slot))))"
| "exec rt tx L (VerifyPasskey m_identity m_owner m_instructions index) =
     res_bind (ctx_verify_passkey rt L m_identity m_owner m_instructions) (\<lambda>ident.
     res_bind (verify_passkey rt tx ident index) (\<lambda>message_hash.
     Inr (L, PassKeyVerified (am_key m_identity) index message_hash)))"
| "exec rt tx L (RegisterIssuer m_issuer m_authority m_system schema_id merkle_root) =
     res_bind (ctx_register_issuer rt tx L m_issuer m_authority m_system) (\<lambda>bump.
     Inr (L(am_key m_issuer \<mapsto> AIssuer (register_issuer (am_key m_authority) schema_id merkle_root bump)),
          IssuerRegistered (am_key m_issuer) (am_key m_authority)))"
| "exec rt tx L (UpdateRoot m_issuer m_authority merkle_root) =
     res_bind (ctx_admin_issuer rt L m_issuer m_authority) (\<lambda>iss.
     Inr (L(am_key m_issuer \<mapsto> AIssuer (update_root iss merkle_root)),
          RootUpdated (am_key m_issuer) merkle_root))"
| "exec rt tx L (ClaimAttestation m_identity m_issuer m_nullifier m_owner m_system
      leaf path index_bits nullifier_arg) =
     res_bind (ctx_claim_attestation rt tx L m_identity m_issuer m_nullifier m_owner m_system
       nullifier_arg) (\<lambda>(ident, iss, bump).
     res_bind (claim_attestation rt tx ident iss (am_key m_issuer) bump leaf path index_bits
       nullifier_arg) (\<lambda>(nul, ident', iss').
     Inr (L(am_key m_nullifier \<mapsto> ANullifier nul,
            am_key m_identity \<mapsto> AIdentity ident',
            am_key m_issuer \<mapsto> AIssuer iss'),
          AttestationClaimed (am_key m_identity) (am_key m_issuer) (iss_schema_id iss))))"

end
