(* ===== verification/Program_Facts.thy ===== *)
theory Program_Facts
  imports Program
begin

text \<open>
  What each handler and each account context does, as equivalences that name every
  condition of success and the whole effect. The later proofs about the ledger use these
  facts and never the code of a handler.
\<close>

section \<open>Loading accounts\<close>

lemma load_identity_iff: "load_identity L m = Inr i \<longleftrightarrow> L (am_key m) = Some (AIdentity i)"
  by (auto simp: load_identity_def split: option.splits account.splits)

lemma load_issuer_iff: "load_issuer L m = Inr i \<longleftrightarrow> L (am_key m) = Some (AIssuer i)"
  by (auto simp: load_issuer_def split: option.splits account.splits)

lemma init_pda_iff:
  "init_pda rt tx L m seeds payer space = Inr bump \<longleftrightarrow>
     rt_find_pda rt seeds = (am_key m, bump) \<and> L (am_key m) = None \<and>
     tx_can_pay tx (am_key payer) space \<and> am_writable m"
  by (cases "rt_find_pda rt seeds")
    (auto simp: init_pda_def check_mut_def res_simps)

lemmas load_iffs =
  load_identity_iff load_issuer_iff init_pda_iff load_signer_def load_system_def
  check_mut_def check_seeds_def

lemma ctx_create_identity_iff:
  "ctx_create_identity rt tx L m_identity m_owner m_system = Inr bump \<longleftrightarrow>
     am_signer m_owner \<and> am_key m_system = rt_system_id rt \<and>
     rt_find_pda rt (identity_seeds (am_key m_owner)) = (am_key m_identity, bump) \<and>
     L (am_key m_identity) = None \<and> tx_can_pay tx (am_key m_owner) identity_space \<and>
     am_writable m_identity \<and> am_writable m_owner"
  by (auto simp: ctx_create_identity_def load_iffs res_simps)

lemma ctx_manage_identity_iff:
  "ctx_manage_identity rt L m_identity m_owner = Inr ident \<longleftrightarrow>
     L (am_key m_identity) = Some (AIdentity ident) \<and> am_signer m_owner \<and>
     rt_create_pda rt (identity_seeds (am_key m_owner)) (id_bump ident) = Some (am_key m_identity) \<and>
     am_writable m_identity \<and> id_owner ident = am_key m_owner"
  by (auto simp: ctx_manage_identity_def load_iffs res_simps)

lemma ctx_verify_passkey_iff:
  "ctx_verify_passkey rt L m_identity m_owner m_instructions = Inr ident \<longleftrightarrow>
     L (am_key m_identity) = Some (AIdentity ident) \<and> am_signer m_owner \<and>
     rt_create_pda rt (identity_seeds (am_key m_owner)) (id_bump ident) = Some (am_key m_identity) \<and>
     id_owner ident = am_key m_owner \<and> am_key m_instructions = rt_instructions_id rt"
  by (auto simp: ctx_verify_passkey_def load_iffs res_simps)

lemma ctx_register_issuer_iff:
  "ctx_register_issuer rt tx L m_issuer m_authority m_system = Inr bump \<longleftrightarrow>
     am_signer m_authority \<and> am_key m_system = rt_system_id rt \<and>
     rt_find_pda rt (issuer_seeds (am_key m_authority)) = (am_key m_issuer, bump) \<and>
     L (am_key m_issuer) = None \<and> tx_can_pay tx (am_key m_authority) issuer_space \<and>
     am_writable m_issuer \<and> am_writable m_authority"
  by (auto simp: ctx_register_issuer_def load_iffs res_simps)

lemma ctx_admin_issuer_iff:
  "ctx_admin_issuer rt L m_issuer m_authority = Inr iss \<longleftrightarrow>
     L (am_key m_issuer) = Some (AIssuer iss) \<and> am_signer m_authority \<and>
     rt_create_pda rt (issuer_seeds (am_key m_authority)) (iss_bump iss) = Some (am_key m_issuer) \<and>
     am_writable m_issuer \<and> iss_authority iss = am_key m_authority"
  by (auto simp: ctx_admin_issuer_def load_iffs res_simps)

lemma ctx_claim_attestation_iff:
  "ctx_claim_attestation rt tx L m_identity m_issuer m_nullifier m_owner m_system nullifier_arg =
       Inr (ident, iss, bump) \<longleftrightarrow>
     L (am_key m_identity) = Some (AIdentity ident) \<and> L (am_key m_issuer) = Some (AIssuer iss) \<and>
     am_signer m_owner \<and> am_key m_system = rt_system_id rt \<and>
     rt_find_pda rt (nullifier_seeds (am_key m_issuer) nullifier_arg) = (am_key m_nullifier, bump) \<and>
     L (am_key m_nullifier) = None \<and> tx_can_pay tx (am_key m_owner) nullifier_space \<and>
     am_writable m_nullifier \<and>
     rt_create_pda rt (identity_seeds (am_key m_owner)) (id_bump ident) = Some (am_key m_identity) \<and>
     am_writable m_identity \<and> id_owner ident = am_key m_owner \<and>
     am_writable m_issuer \<and> am_writable m_owner"
  by (auto simp: ctx_claim_attestation_def load_iffs res_simps)

lemmas ctx_iffs =
  ctx_create_identity_iff ctx_manage_identity_iff ctx_verify_passkey_iff
  ctx_register_issuer_iff ctx_admin_issuer_iff ctx_claim_attestation_iff

section \<open>Handlers\<close>

lemma add_passkey_iff:
  "add_passkey tx ident pubkey label = Inr (ident', slot) \<longleftrightarrow>
     (\<exists>now count. tx_clock tx = Some now \<and> free_passkey_slot ident = Some slot \<and>
       checked_add (id_passkey_count ident) 1 = Some count \<and>
       ident' = ident\<lparr>id_passkeys := arr_set (id_passkeys ident) slot
           \<lparr>pk_pubkey = pubkey, pk_label = label, pk_added_ts = now, pk_is_active = True\<rparr>,
         id_passkey_count := count\<rparr>)"
  by (auto simp: add_passkey_def Let_def res_simps)

lemma oc_verify_short:
  "length path \<le> MAX_MERKLE_DEPTH \<Longrightarrow>
     oc_verify hashv leaf path bits root =
       Some (fold_path (oc_hash_pair hashv) (bit bits) 0 leaf path = root)"
  by (intro oc.vfy_iff) (simp add: MAX_MERKLE_DEPTH_def)

lemma claim_attestation_iff:
  "claim_attestation rt tx ident iss issuer_key bump leaf path bits nullifier_arg =
       Inr (nul, ident', iss') \<longleftrightarrow>
     length path \<le> MAX_MERKLE_DEPTH \<and>
     fold_path (oc_hash_pair (rt_hashv rt)) (bit bits) 0 leaf path = iss_merkle_root iss \<and>
     nul = \<lparr>nul_issuer = issuer_key, nul_hash = nullifier_arg, nul_bump = bump\<rparr> \<and>
     (\<exists>now slot count icount. tx_clock tx = Some now \<and> free_attestation_slot ident = Some slot \<and>
       checked_add (id_attestation_count ident) 1 = Some count \<and>
       checked_add (iss_attestation_count iss) 1 = Some icount \<and>
       ident' = ident\<lparr>id_attestations := arr_set (id_attestations ident) slot
           \<lparr>at_issuer = issuer_key, at_schema_id = iss_schema_id iss, at_claimed_ts = now,
            at_is_active = True\<rparr>,
         id_attestation_count := count\<rparr> \<and>
       iss' = iss\<lparr>iss_attestation_count := icount\<rparr>)"
  by (cases "length path \<le> MAX_MERKLE_DEPTH")
    (auto simp: claim_attestation_def Let_def res_simps oc_verify_short)

lemma claim_attestation_never_panics:
  "claim_attestation rt tx ident iss issuer_key bump leaf path bits nullifier_arg \<noteq> Inl ProgramPanicked"
  by (cases "length path \<le> MAX_MERKLE_DEPTH")
    (auto simp: claim_attestation_def Let_def res_simps oc_verify_short)

text \<open>
  The scan finds the first secp256r1 instruction among those it can load: an index whose
  predecessors all load and belong to other programs.
\<close>

definition first_secp :: "tx_env \<Rightarrow> nat \<Rightarrow> u8 list \<Rightarrow> bool" where
  "first_secp tx i data \<longleftrightarrow>
     tx_load_ix tx i = Some (SECP256R1_PROGRAM_ID, data) \<and>
     (\<forall>j < i. \<exists>p d. tx_load_ix tx j = Some (p, d) \<and> p \<noteq> SECP256R1_PROGRAM_ID)"

lemma first_secp_unique: "first_secp tx i d \<Longrightarrow> first_secp tx j e \<Longrightarrow> i = j \<and> d = e"
proof -
  assume fi: "first_secp tx i d" and fj: "first_secp tx j e"
  have "\<not> i < j" "\<not> j < i"
    using fi fj by (auto simp: first_secp_def)
  then have "i = j" by simp
  with fi fj show ?thesis by (auto simp: first_secp_def)
qed

lemma scan_instructions_Some_iff:
  assumes "\<forall>j < a. \<exists>p d. tx_load_ix tx j = Some (p, d) \<and> p \<noteq> SECP256R1_PROGRAM_ID"
  shows "scan_instructions rt tx cred [a..<n] = Inr (Some h) \<longleftrightarrow>
    (\<exists>i data vc. a \<le> i \<and> i < n \<and> first_secp tx i data \<and> extract_embedded data = Some vc \<and>
      vc_pubkey vc = arr_list (pk_pubkey cred) \<and> h = rt_hash rt (vc_message vc))"
  using assms
proof (induction "n - a" arbitrary: a)
  case 0
  then show ?case by auto
next
  case (Suc k)
  then have a: "[a..<n] = a # [Suc a..<n]" by (simp add: upt_conv_Cons)
  show ?case
  proof (cases "\<exists>p d. tx_load_ix tx a = Some (p, d) \<and> p \<noteq> SECP256R1_PROGRAM_ID")
    case True
    have "scan_instructions rt tx cred [Suc a..<n] = Inr (Some h) \<longleftrightarrow>
        (\<exists>i data vc. Suc a \<le> i \<and> i < n \<and> first_secp tx i data \<and> extract_embedded data = Some vc \<and>
          vc_pubkey vc = arr_list (pk_pubkey cred) \<and> h = rt_hash rt (vc_message vc))"
      using True Suc.prems Suc.hyps(2) by (intro Suc.hyps(1)) (auto simp: less_Suc_eq)
    moreover have "Suc a \<le> i \<longleftrightarrow> a \<le> i" if "first_secp tx i data" for i data
      using True that by (auto simp: first_secp_def le_less)
    moreover have "scan_instructions rt tx cred [a..<n] = scan_instructions rt tx cred [Suc a..<n]"
      using True a by auto
    ultimately show ?thesis by metis
  next
    case False
    have only_a: "a \<le> i \<Longrightarrow> first_secp tx i data \<Longrightarrow> i = a" for i data
      using False by (auto simp: first_secp_def le_eq_less_or_eq)
    have "a < n" using Suc.hyps(2) by simp
    show ?thesis
    proof (cases "tx_load_ix tx a")
      case None
      then have "\<not> first_secp tx a data" for data by (simp add: first_secp_def)
      with only_a None a show ?thesis by fastforce
    next
      case (Some pd)
      then obtain d where d: "tx_load_ix tx a = Some (SECP256R1_PROGRAM_ID, d)"
        using False by (cases pd) auto
      then have "first_secp tx a data \<longleftrightarrow> data = d" for data
        using Suc.prems by (auto simp: first_secp_def)
      with only_a d a \<open>a < n\<close> show ?thesis
        by (auto simp: res_simps; metis)
    qed
  qed
qed

lemma verify_passkey_iff:
  "verify_passkey rt tx ident index = Inr h \<longleftrightarrow>
     (\<exists>cred i data vc. arr_get (id_passkeys ident) (unat index) = Some cred \<and> pk_is_active cred \<and>
       i < MAX_TX_INSTRUCTIONS \<and> first_secp tx i data \<and> extract_embedded data = Some vc \<and>
       vc_pubkey vc = arr_list (pk_pubkey cred) \<and> h = rt_hash rt (vc_message vc))"
  by (auto simp: verify_passkey_def res_simps scan_instructions_Some_iff split: option.splits if_splits)

end
