(* ===== verification/Ledger.thy ===== *)
theory Ledger
  imports Program_Facts
begin

text \<open>
  The on-chain program as a state machine over the ledger: the states that any sequence of
  instructions can reach, the effects an instruction can have, and the invariants that
  hold in every reachable state.
\<close>

section \<open>Steps and reachable ledgers\<close>

text \<open>
  A step is a successful instruction, in any transaction environment. A failed one is
  rolled back and is no step. Before the first instruction the program owns no account.
\<close>

inductive ledger_step :: "runtime \<Rightarrow> ledger \<Rightarrow> ledger \<Rightarrow> bool" for rt where
  executed: "exec rt tx L ins = Inr (L', ev) \<Longrightarrow> ledger_step rt L L'"

inductive ledger_steps :: "runtime \<Rightarrow> ledger \<Rightarrow> ledger \<Rightarrow> bool" for rt where
  refl: "ledger_steps rt L L"
| step: "ledger_steps rt L L' \<Longrightarrow> ledger_step rt L' L'' \<Longrightarrow> ledger_steps rt L L''"

definition reachable :: "runtime \<Rightarrow> ledger \<Rightarrow> bool" where
  "reachable rt L \<longleftrightarrow> ledger_steps rt Map.empty L"

text \<open>
  A transaction runs its instructions in order and commits all or nothing; so its result
  is a sequence of steps.
\<close>

fun run_tx :: "runtime \<Rightarrow> tx_env \<Rightarrow> ledger \<Rightarrow> instr list \<Rightarrow> program_error + (ledger \<times> event list)" where
  "run_tx rt tx L [] = Inr (L, [])"
| "run_tx rt tx L (i # is) =
     res_bind (exec rt tx L i) (\<lambda>(L', ev).
     res_bind (run_tx rt tx L' is) (\<lambda>(L'', evs). Inr (L'', ev # evs)))"

lemma ledger_steps_trans:
  assumes "ledger_steps rt L L'" and "ledger_steps rt L' L''"
  shows "ledger_steps rt L L''"
  using assms(2,1) by (induction rule: ledger_steps.induct) (auto intro: ledger_steps.step)

lemma run_tx_steps: "run_tx rt tx L is = Inr (L', evs) \<Longrightarrow> ledger_steps rt L L'"
proof (induction "is" arbitrary: L evs)
  case Nil
  then show ?case by (simp add: ledger_steps.refl)
next
  case (Cons i "is")
  then obtain L1 ev evs' where "exec rt tx L i = Inr (L1, ev)" "run_tx rt tx L1 is = Inr (L', evs')"
    by (auto simp: res_simps)
  then have "ledger_step rt L L1" "ledger_steps rt L1 L'"
    by (auto intro: executed Cons.IH)
  then show ?case
    by (blast intro: ledger_steps_trans ledger_steps.refl ledger_steps.step)
qed

section \<open>Effects\<close>

text \<open>
  What a successful instruction does to the ledger, without the checks that only decide
  who may do it.
\<close>

inductive effect :: "runtime \<Rightarrow> ledger \<Rightarrow> ledger \<Rightarrow> bool" for rt where
  create: "rt_find_pda rt (identity_seeds owner) = (a, bump) \<Longrightarrow> L a = None \<Longrightarrow>
     effect rt L (L(a \<mapsto> AIdentity (create_identity owner bump)))"
| add: "L a = Some (AIdentity d) \<Longrightarrow> add_passkey tx d pubkey label = Inr (d', slot) \<Longrightarrow>
     effect rt L (L(a \<mapsto> AIdentity d'))"
| verify: "effect rt L L"
| register: "rt_find_pda rt (issuer_seeds authority) = (a, bump) \<Longrightarrow> L a = None \<Longrightarrow>
     effect rt L (L(a \<mapsto> AIssuer (register_issuer authority schema root bump)))"
| rotate: "L a = Some (AIssuer s) \<Longrightarrow> effect rt L (L(a \<mapsto> AIssuer (update_root s root)))"
| claim: "L a = Some (AIdentity d) \<Longrightarrow> L i = Some (AIssuer s) \<Longrightarrow> L n = None \<Longrightarrow>
     rt_find_pda rt (nullifier_seeds i h) = (n, bump) \<Longrightarrow>
     claim_attestation rt tx d s i bump leaf path bits h = Inr (nul, d', s') \<Longrightarrow>
     effect rt L (L(n \<mapsto> ANullifier nul, a \<mapsto> AIdentity d', i \<mapsto> AIssuer s'))"

lemma exec_effect: "exec rt tx L ins = Inr (L', ev) \<Longrightarrow> effect rt L L'"
  by (cases ins) (auto simp: res_simps ctx_iffs intro: effect.intros)

lemma ledger_step_effect: "ledger_step rt L L' \<Longrightarrow> effect rt L L'"
  by (auto elim!: ledger_step.cases intro: exec_effect)

section \<open>What never changes\<close>

text \<open>
  Accounts are never closed, change their kind or their owner; a nullifier never changes
  at all.
\<close>

fun same_account :: "account \<Rightarrow> account \<Rightarrow> bool" where
  "same_account (AIdentity d) (AIdentity d') \<longleftrightarrow> id_owner d' = id_owner d \<and> id_bump d' = id_bump d"
| "same_account (AIssuer s) (AIssuer s') \<longleftrightarrow>
     iss_authority s' = iss_authority s \<and> iss_schema_id s' = iss_schema_id s \<and> iss_bump s' = iss_bump s"
| "same_account (ANullifier n) (ANullifier n') \<longleftrightarrow> n' = n"
| "same_account _ _ \<longleftrightarrow> False"

lemma same_account_refl [simp]: "same_account x x"
  by (cases x) auto

lemma same_account_trans: "same_account x y \<Longrightarrow> same_account y z \<Longrightarrow> same_account x z"
  by (cases x; cases y; cases z) auto

lemma claim_attestation_same:
  "claim_attestation rt tx d s i bump leaf path bits h = Inr (nul, d', s') \<Longrightarrow>
     same_account (AIdentity d) (AIdentity d') \<and> same_account (AIssuer s) (AIssuer s')"
  by (auto simp: claim_attestation_iff)

lemma effect_same:
  "effect rt L L' \<Longrightarrow> L x = Some acc \<Longrightarrow> \<exists>acc'. L' x = Some acc' \<and> same_account acc acc'"
proof (induction rule: effect.induct)
  case (claim L a d i s n h bump tx leaf path bits nul d' s')
  from claim_attestation_same [OF claim(5)] claim show ?case by auto
qed (auto simp: add_passkey_iff update_root_def)

lemma steps_same:
  assumes "ledger_steps rt L L'" and "L x = Some acc"
  shows "\<exists>acc'. L' x = Some acc' \<and> same_account acc acc'"
  using assms
proof (induction rule: ledger_steps.induct)
  case (refl L)
  then show ?case by auto
next
  case (step L L' L'')
  then show ?case
    by (metis effect_same ledger_step_effect same_account_trans)
qed

section \<open>Sums over the ledger\<close>

definition ledger_total :: "(account \<Rightarrow> nat) \<Rightarrow> ledger \<Rightarrow> nat" where
  "ledger_total f L = (\<Sum>a \<in> dom L. f (the (L a)))"

lemma total_new:
  "finite (dom L) \<Longrightarrow> L a = None \<Longrightarrow> ledger_total f (L(a \<mapsto> x)) = ledger_total f L + f x"
proof -
  assume fin: "finite (dom L)" and new: "L a = None"
  then have "a \<notin> dom L" by auto
  moreover from this have "(\<Sum>b \<in> dom L. f (the ((L(a \<mapsto> x)) b))) = ledger_total f L"
    unfolding ledger_total_def by (intro sum.cong) auto
  ultimately show ?thesis
    using fin by (simp add: ledger_total_def)
qed

lemma total_upd:
  "finite (dom L) \<Longrightarrow> L a = Some y \<Longrightarrow> ledger_total f (L(a \<mapsto> x)) + f y = ledger_total f L + f x"
proof -
  assume fin: "finite (dom L)" and old: "L a = Some y"
  then have a: "a \<in> dom L" "dom (L(a \<mapsto> x)) = dom L" by auto
  have "(\<Sum>b \<in> dom L - {a}. f (the ((L(a \<mapsto> x)) b))) = (\<Sum>b \<in> dom L - {a}. f (the (L b)))"
    by (intro sum.cong) auto
  with fin a old show ?thesis
    by (simp add: ledger_total_def sum.remove [of "dom L" a])
qed

text \<open>The nullifiers spent at an issuer, and the live attestations that name it.\<close>

fun spent_at :: "address \<Rightarrow> account \<Rightarrow> nat" where
  "spent_at i (ANullifier n) = (if nul_issuer n = i then 1 else 0)"
| "spent_at i _ = 0"

fun attested_by :: "address \<Rightarrow> account \<Rightarrow> nat" where
  "attested_by i (AIdentity d) = arr_count (\<lambda>a. at_is_active a \<and> at_issuer a = i) (id_attestations d)"
| "attested_by i _ = 0"

lemma total_spent_card:
  assumes "finite (dom L)"
  shows "ledger_total (spent_at i) L = card {a. \<exists>n. L a = Some (ANullifier n) \<and> nul_issuer n = i}"
proof -
  let ?S = "{a. \<exists>n. L a = Some (ANullifier n) \<and> nul_issuer n = i}"
  have sub: "?S \<subseteq> dom L" by auto
  have "ledger_total (spent_at i) L = (\<Sum>a \<in> dom L. if a \<in> ?S then 1 else 0)"
    unfolding ledger_total_def
  proof (rule sum.cong)
    fix a assume "a \<in> dom L"
    then obtain acc where "L a = Some acc" by auto
    then show "spent_at i (the (L a)) = (if a \<in> ?S then 1 else 0)"
      by (cases acc) auto
  qed simp
  also have "\<dots> = card ?S"
    using assms sub by (simp add: sum.If_cases Int_absorb1)
  finally show ?thesis .
qed

end
