(* ===== verification/Ledger_Inv.thy ===== *)
theory Ledger_Inv
  imports Ledger
begin

text \<open>
  The invariants of every reachable ledger: each account lies at the address derived from
  its owner, the tables of an identity agree with their counters, attestations and
  nullifiers name existing issuers, and an issuer's counter is both the number of
  nullifiers spent at it and the number of live attestations that name it.
\<close>

section \<open>The invariant\<close>

definition names_issuer :: "ledger \<Rightarrow> address \<Rightarrow> (issuer \<Rightarrow> bool) \<Rightarrow> bool" where
  "names_issuer L i p \<longleftrightarrow> (\<exists>s. L i = Some (AIssuer s) \<and> p s)"

fun account_ok :: "runtime \<Rightarrow> ledger \<Rightarrow> address \<Rightarrow> account \<Rightarrow> bool" where
  "account_ok rt L a (AIdentity d) \<longleftrightarrow>
     identity_wf d \<and> rt_find_pda rt (identity_seeds (id_owner d)) = (a, id_bump d) \<and>
     (\<forall>t \<in> set (arr_list (id_attestations d)). at_is_active t \<longrightarrow>
       names_issuer L (at_issuer t) (\<lambda>s. iss_schema_id s = at_schema_id t))"
| "account_ok rt L a (AIssuer s) \<longleftrightarrow>
     rt_find_pda rt (issuer_seeds (iss_authority s)) = (a, iss_bump s) \<and>
     unat (iss_attestation_count s) = ledger_total (spent_at a) L \<and>
     unat (iss_attestation_count s) = ledger_total (attested_by a) L"
| "account_ok rt L a (ANullifier n) \<longleftrightarrow>
     rt_find_pda rt (nullifier_seeds (nul_issuer n) (nul_hash n)) = (a, nul_bump n) \<and>
     names_issuer L (nul_issuer n) (\<lambda>s. True)"

definition ledger_ok :: "runtime \<Rightarrow> ledger \<Rightarrow> bool" where
  "ledger_ok rt L \<longleftrightarrow> finite (dom L) \<and> (\<forall>a acc. L a = Some acc \<longrightarrow> account_ok rt L a acc)"

lemma ledger_okD: "ledger_ok rt L \<Longrightarrow> L a = Some acc \<Longrightarrow> account_ok rt L a acc"
  by (simp add: ledger_ok_def)

lemma ledger_ok_empty: "ledger_ok rt Map.empty"
  by (simp add: ledger_ok_def)

section \<open>Frame facts\<close>

text \<open>An issuer that is named stays named, because effects keep accounts.\<close>

lemma names_issuer_keep:
  assumes "effect rt L L'" and "names_issuer L i p"
    and "\<And>s s'. p s \<Longrightarrow> iss_schema_id s' = iss_schema_id s \<Longrightarrow> p s'"
  shows "names_issuer L' i p"
proof -
  from assms(2) obtain s where s: "L i = Some (AIssuer s)" "p s" by (auto simp: names_issuer_def)
  from effect_same [OF assms(1) s(1)] obtain acc' where
    acc': "L' i = Some acc'" "same_account (AIssuer s) acc'" by blast
  then obtain s' where "acc' = AIssuer s'" "iss_schema_id s' = iss_schema_id s"
    by (cases acc') auto
  with acc' s assms(3) show ?thesis by (auto simp: names_issuer_def)
qed

text \<open>
  An account that is not an issuer stays in order across any effect; an issuer does when
  its two sums stay what they were.
\<close>

lemma account_ok_keep:
  assumes "effect rt L L'" and "account_ok rt L a acc"
    and "\<And>s. acc = AIssuer s \<Longrightarrow> ledger_total (spent_at a) L' = ledger_total (spent_at a) L \<and>
      ledger_total (attested_by a) L' = ledger_total (attested_by a) L"
  shows "account_ok rt L' a acc"
  using assms by (cases acc) (auto intro: names_issuer_keep)

text \<open>Nothing names an address that holds no issuer.\<close>

lemma no_issuer_no_total:
  assumes "ledger_ok rt L" and "\<And>s. L i \<noteq> Some (AIssuer s)"
  shows "ledger_total (spent_at i) L = 0" and "ledger_total (attested_by i) L = 0"
proof -
  have "spent_at i (the (L a)) = 0 \<and> attested_by i (the (L a)) = 0" if "a \<in> dom L" for a
  proof -
    from that obtain acc where acc: "L a = Some acc" by auto
    with assms(1) have ok: "account_ok rt L a acc" by (rule ledger_okD)
    show ?thesis
    proof (cases acc)
      case (AIdentity d)
      with ok assms(2) have "\<not> (at_is_active t \<and> at_issuer t = i)"
        if "t \<in> set (arr_list (id_attestations d))" for t
        using that by (auto simp: names_issuer_def)
      with AIdentity acc show ?thesis
        by (auto simp: arr_count_def filter_empty_conv)
    next
      case (ANullifier n)
      with ok assms(2) acc show ?thesis by (auto simp: names_issuer_def)
    qed (use acc in simp)
  qed
  then show "ledger_total (spent_at i) L = 0" and "ledger_total (attested_by i) L = 0"
    by (simp_all add: ledger_total_def)
qed

text \<open>Sums that an update leaves alone.\<close>

lemma total_upd_same:
  "finite (dom L) \<Longrightarrow> L a = Some y \<Longrightarrow> f x = f y \<Longrightarrow> ledger_total f (L(a \<mapsto> x)) = ledger_total f L"
  using total_upd [of L a y f x] by simp

section \<open>Preservation\<close>

text \<open>
  An effect that writes one account keeps the invariant when it leaves the sums alone and
  the new account is in order.
\<close>

lemma ledger_ok_write:
  assumes ok: "ledger_ok rt L" and eff: "effect rt L (L(a \<mapsto> x))"
    and tot: "\<And>i. ledger_total (spent_at i) (L(a \<mapsto> x)) = ledger_total (spent_at i) L"
      "\<And>i. ledger_total (attested_by i) (L(a \<mapsto> x)) = ledger_total (attested_by i) L"
    and new: "account_ok rt (L(a \<mapsto> x)) a x"
  shows "ledger_ok rt (L(a \<mapsto> x))"
proof -
  have "account_ok rt (L(a \<mapsto> x)) b acc" if "L b = Some acc" for b acc
    using eff ledger_okD [OF ok that] by (rule account_ok_keep) (simp add: tot)
  with new ok show ?thesis by (simp add: ledger_ok_def)
qed

lemma create_identity_wf: "identity_wf (create_identity owner bump)"
  by (simp add: identity_wf_def create_identity_def arr_count_fill passkey_default_def
      attestation_default_def)

lemma create_identity_attested:
  "arr_count (\<lambda>t. at_is_active t \<and> at_issuer t = i) (id_attestations (create_identity owner bump)) = 0"
  by (simp add: create_identity_def arr_count_fill attestation_default_def)

lemma effect_create_ok:
  assumes ok: "ledger_ok rt L" and new: "L a = None"
    and pda: "rt_find_pda rt (identity_seeds owner) = (a, bump)"
  shows "ledger_ok rt (L(a \<mapsto> AIdentity (create_identity owner bump)))"
proof (rule ledger_ok_write [OF ok effect.create [where rt = rt and L = L, OF pda new]])
  have fin: "finite (dom L)" using ok by (simp add: ledger_ok_def)
  show "ledger_total (spent_at i) (L(a \<mapsto> AIdentity (create_identity owner bump))) =
      ledger_total (spent_at i) L" for i
    using fin new by (simp add: total_new)
  show "ledger_total (attested_by i) (L(a \<mapsto> AIdentity (create_identity owner bump))) =
      ledger_total (attested_by i) L" for i
    using fin new by (simp add: total_new create_identity_attested)
  show "account_ok rt (L(a \<mapsto> AIdentity (create_identity owner bump))) a
      (AIdentity (create_identity owner bump))"
    using pda create_identity_wf by (simp add: create_identity_def attestation_default_def)
qed

text \<open>Filling a free slot keeps a table in step with its counter.\<close>

lemma add_passkey_wf:
  assumes "identity_wf d" and "add_passkey tx d pubkey label = Inr (d', slot)"
  shows "identity_wf d'" and "id_owner d' = id_owner d" and "id_bump d' = id_bump d"
    and "id_attestations d' = id_attestations d"
  using assms passkey_count_add [OF assms(1)] arr_count_set_position [of pk_is_active "id_passkeys d" slot pk_is_active]
  by (auto simp: add_passkey_iff identity_wf_def free_passkey_slot_def)

lemma effect_add_ok:
  assumes ok: "ledger_ok rt L" and d: "L a = Some (AIdentity d)"
    and h: "add_passkey tx d pubkey label = Inr (d', slot)"
  shows "ledger_ok rt (L(a \<mapsto> AIdentity d'))"
proof (rule ledger_ok_write [OF ok effect.add [where rt = rt and L = L, OF d h]])
  have fin: "finite (dom L)" using ok by (simp add: ledger_ok_def)
  have okd: "account_ok rt L a (AIdentity d)" using ok d by (rule ledger_okD)
  then have "identity_wf d" by simp
  note d' = add_passkey_wf [OF this h]
  show tot: "ledger_total (spent_at i) (L(a \<mapsto> AIdentity d')) = ledger_total (spent_at i) L" for i
    by (rule total_upd_same [OF fin d]) simp
  show "ledger_total (attested_by i) (L(a \<mapsto> AIdentity d')) = ledger_total (attested_by i) L" for i
    by (rule total_upd_same [OF fin d]) (simp add: d')
  have "account_ok rt (L(a \<mapsto> AIdentity d')) a (AIdentity d)"
    using effect.add [where rt = rt and L = L, OF d h] okd by (rule account_ok_keep) simp
  with d' show "account_ok rt (L(a \<mapsto> AIdentity d')) a (AIdentity d')" by simp
qed

lemma effect_register_ok:
  assumes ok: "ledger_ok rt L" and new: "L a = None"
    and pda: "rt_find_pda rt (issuer_seeds authority) = (a, bump)"
  shows "ledger_ok rt (L(a \<mapsto> AIssuer (register_issuer authority schema root bump)))"
proof (rule ledger_ok_write [OF ok effect.register [where rt = rt and L = L, OF pda new]])
  let ?L' = "L(a \<mapsto> AIssuer (register_issuer authority schema root bump))"
  have fin: "finite (dom L)" using ok by (simp add: ledger_ok_def)
  show tot: "ledger_total (spent_at i) ?L' = ledger_total (spent_at i) L"
    and tot': "ledger_total (attested_by i) ?L' = ledger_total (attested_by i) L" for i
    using fin new by (simp_all add: total_new)
  have "ledger_total (spent_at a) ?L' = 0" "ledger_total (attested_by a) ?L' = 0"
    using no_issuer_no_total [OF ok, of a] new by (simp_all add: tot tot')
  with pda show "account_ok rt ?L' a (AIssuer (register_issuer authority schema root bump))"
    by (simp add: register_issuer_def)
qed

lemma effect_rotate_ok:
  assumes ok: "ledger_ok rt L" and s: "L a = Some (AIssuer s)"
  shows "ledger_ok rt (L(a \<mapsto> AIssuer (update_root s root)))"
proof (rule ledger_ok_write [OF ok effect.rotate [where rt = rt and L = L, OF s]])
  let ?L' = "L(a \<mapsto> AIssuer (update_root s root))"
  have fin: "finite (dom L)" using ok by (simp add: ledger_ok_def)
  show tot: "ledger_total (spent_at i) ?L' = ledger_total (spent_at i) L"
    and tot': "ledger_total (attested_by i) ?L' = ledger_total (attested_by i) L" for i
    by (rule total_upd_same [OF fin s], simp)+
  have "account_ok rt ?L' a (AIssuer s)"
    using effect.rotate [where rt = rt and L = L, OF s] ledger_okD [OF ok s]
    by (rule account_ok_keep) (simp add: tot tot')
  then show "account_ok rt ?L' a (AIssuer (update_root s root))"
    by (simp add: update_root_def)
qed

text \<open>
  A claim adds one attestation, one nullifier and one to the counter of the issuer, all
  for the same issuer.
\<close>

lemma claim_attestation_wf:
  assumes "identity_wf d"
    and h: "claim_attestation rt tx d s i bump leaf path bits hsh = Inr (nul, d', s')"
  shows "identity_wf d'"
    and "arr_count (\<lambda>t. at_is_active t \<and> at_issuer t = j) (id_attestations d') =
      arr_count (\<lambda>t. at_is_active t \<and> at_issuer t = j) (id_attestations d) + (if j = i then 1 else 0)"
    and "\<And>t. t \<in> set (arr_list (id_attestations d')) \<Longrightarrow>
      t \<in> set (arr_list (id_attestations d)) \<or> (at_issuer t = i \<and> at_schema_id t = iss_schema_id s)"
proof -
  from h obtain now slot count where
    slot: "free_attestation_slot d = Some slot"
    and count: "checked_add (id_attestation_count d) 1 = Some count"
    and d': "d' = d\<lparr>id_attestations := arr_set (id_attestations d) slot
         \<lparr>at_issuer = i, at_schema_id = iss_schema_id s, at_claimed_ts = now, at_is_active = True\<rparr>,
       id_attestation_count := count\<rparr>"
    by (auto simp: claim_attestation_iff)
  have pos: "arr_position (\<lambda>t. \<not> at_is_active t) (id_attestations d) = Some slot"
    using slot by (simp add: free_attestation_slot_def)
  show "identity_wf d'"
    using assms(1) attestation_count_add [OF assms(1)] count
      arr_count_set_position [of at_is_active "id_attestations d" slot at_is_active, OF pos]
    by (simp add: d' identity_wf_def)
  show "arr_count (\<lambda>t. at_is_active t \<and> at_issuer t = j) (id_attestations d') =
      arr_count (\<lambda>t. at_is_active t \<and> at_issuer t = j) (id_attestations d) + (if j = i then 1 else 0)"
    using arr_count_set_position [OF pos, of "\<lambda>t. at_is_active t \<and> at_issuer t = j"]
    by (simp add: d')
  show "t \<in> set (arr_list (id_attestations d)) \<or> (at_issuer t = i \<and> at_schema_id t = iss_schema_id s)"
    if "t \<in> set (arr_list (id_attestations d'))" for t
    using that by (auto simp: d' dest: subsetD [OF set_update_subset_insert])
qed

lemma effect_claim_ok:
  assumes ok: "ledger_ok rt L"
    and d: "L a = Some (AIdentity d)" and s: "L i = Some (AIssuer s)" and n: "L n = None"
    and pda: "rt_find_pda rt (nullifier_seeds i hsh) = (n, bump)"
    and h: "claim_attestation rt tx d s i bump leaf path bits hsh = Inr (nul, d', s')"
  shows "ledger_ok rt (L(n \<mapsto> ANullifier nul, a \<mapsto> AIdentity d', i \<mapsto> AIssuer s'))"
    (is "ledger_ok rt ?L'")
proof -
  have fin: "finite (dom L)" using ok by (simp add: ledger_ok_def)
  have eff: "effect rt L ?L'" using d s n pda h by (rule effect.claim)
  have ne: "n \<noteq> a" "n \<noteq> i" "a \<noteq> i" using d s n by auto
  have okd: "account_ok rt L a (AIdentity d)" and oks: "account_ok rt L i (AIssuer s)"
    by (rule ledger_okD [OF ok d], rule ledger_okD [OF ok s])
  then have wf: "identity_wf d" by simp
  note cl = claim_attestation_wf [OF wf h]
  have nul: "nul = \<lparr>nul_issuer = i, nul_hash = hsh, nul_bump = bump\<rparr>"
    using h by (simp add: claim_attestation_iff)
  define L1 L2 where "L1 = L(n \<mapsto> ANullifier nul)" and "L2 = L1(a \<mapsto> AIdentity d')"
  have L': "?L' = L2(i \<mapsto> AIssuer s')" by (simp add: L1_def L2_def)
  have fins: "finite (dom L1)" "finite (dom L2)" using fin by (simp_all add: L1_def L2_def)
  have at1: "L1 a = Some (AIdentity d)" and at2: "L2 i = Some (AIssuer s)"
    using d s ne by (simp_all add: L1_def L2_def)
  have total: "ledger_total f ?L' + f (AIdentity d) + f (AIssuer s) =
      ledger_total f L + f (ANullifier nul) + f (AIdentity d') + f (AIssuer s')" for f
    using total_upd [OF fins(2) at2, of f "AIssuer s'"] total_upd [OF fins(1) at1, of f "AIdentity d'"]
      total_new [OF fin n, of f "ANullifier nul"] by (simp add: L' flip: L1_def L2_def)
  have spent: "ledger_total (spent_at j) ?L' = ledger_total (spent_at j) L + (if j = i then 1 else 0)" for j
    using total [of "spent_at j"] by (auto simp: nul)
  have attd: "ledger_total (attested_by j) ?L' =
      ledger_total (attested_by j) L + (if j = i then 1 else 0)" for j
    using total [of "attested_by j"] cl(2) [of j] by simp
  have keep: "account_ok rt ?L' b acc" if "L b = Some acc" and "b \<noteq> i" for b acc
    using eff ledger_okD [OF ok that(1)] by (rule account_ok_keep) (simp add: spent attd that(2))
  have keepd: "account_ok rt ?L' a (AIdentity d)" using keep [OF d] ne by simp
  have same: "id_owner d' = id_owner d" "id_bump d' = id_bump d"
      "iss_authority s' = iss_authority s" "iss_schema_id s' = iss_schema_id s" "iss_bump s' = iss_bump s"
    using claim_attestation_same [OF h] by auto
  have named: "names_issuer ?L' i (\<lambda>s''. iss_schema_id s'' = iss_schema_id s)"
    using same by (simp add: names_issuer_def)
  have "names_issuer ?L' (at_issuer t) (\<lambda>s''. iss_schema_id s'' = at_schema_id t)"
    if "t \<in> set (arr_list (id_attestations d'))" "at_is_active t" for t
    using cl(3) [OF that(1)] named keepd that(2) by (auto simp del: fun_upd_apply)
  then have "account_ok rt ?L' a (AIdentity d')"
    using keepd cl(1) same by (simp del: fun_upd_apply)
  moreover have "account_ok rt ?L' i (AIssuer s')"
  proof -
    have "unat (iss_attestation_count s') = unat (iss_attestation_count s) + 1"
      using h checked_add_unat [of "iss_attestation_count s" 1] by (auto simp: claim_attestation_iff)
    with oks same show ?thesis by (simp add: spent attd)
  qed
  moreover have "account_ok rt ?L' n (ANullifier nul)"
    using pda by (simp add: nul names_issuer_def)
  ultimately show ?thesis
    using keep fin ne by (auto simp: ledger_ok_def)
qed

lemma effect_ok: "effect rt L L' \<Longrightarrow> ledger_ok rt L \<Longrightarrow> ledger_ok rt L'"
  by (induction rule: effect.induct)
    (blast intro: effect_create_ok effect_add_ok effect_register_ok effect_rotate_ok effect_claim_ok)+

lemma steps_ok: "ledger_steps rt L L' \<Longrightarrow> ledger_ok rt L \<Longrightarrow> ledger_ok rt L'"
  by (induction rule: ledger_steps.induct) (auto dest: ledger_step_effect effect_ok)

lemma reachable_ok: "reachable rt L \<Longrightarrow> ledger_ok rt L"
  unfolding reachable_def using steps_ok ledger_ok_empty by blast

end
