(* ===== verification/Merkle_Offchain.thy ===== *)
theory Merkle_Offchain
  imports Merkle_Scheme
begin

text \<open>
  The off-chain Merkle module, \<open>offchain/crates/core/src/merkle.rs\<close>: the membership
  check, and the tree that an issuer builds over its leaves with the proofs it hands out.
  The incremental \<open>sha3::Keccak256\<close> is a parameter: a record of its operations
  \<open>new\<close>, \<open>update\<close> and \<open>finalize\<close> over an unknown state type. The off-chain workspace
  sets no \<open>overflow-checks\<close>, so the arithmetic mode is a parameter too.
\<close>

section \<open>Hashing and verification\<close>

record 'h keccak =
  k_new :: 'h
  k_update :: "'h \<Rightarrow> u8 list \<Rightarrow> 'h"
  k_finalize :: "'h \<Rightarrow> 32 bytes"

definition hash_pair :: "'h keccak \<Rightarrow> 32 bytes \<Rightarrow> 32 bytes \<Rightarrow> 32 bytes" where
  "hash_pair K left right =
     (let h = k_new K;
          h = k_update K h (arr_list left);
          h = k_update K h (arr_list right)
      in k_finalize K h)"

fun root_loop ::
    "'h keccak \<Rightarrow> arith_mode \<Rightarrow> u64 \<Rightarrow> nat \<Rightarrow> 32 bytes \<Rightarrow> 32 bytes list \<Rightarrow> 32 bytes panicking"
where
  "root_loop K m index_bits level node [] = Some node"
| "root_loop K m index_bits level node (sib # siblings) =
     (case shr_u64 m index_bits level of
        None \<Rightarrow> None
      | Some x \<Rightarrow>
          let go_right = (x AND 1 = 1) in
          root_loop K m index_bits (Suc level)
            (if go_right then hash_pair K sib node else hash_pair K node sib) siblings)"

definition compute_root ::
    "'h keccak \<Rightarrow> arith_mode \<Rightarrow> 32 bytes \<Rightarrow> 32 bytes list \<Rightarrow> u64 \<Rightarrow> 32 bytes panicking" where
  "compute_root K m leaf siblings index_bits = root_loop K m index_bits 0 leaf siblings"

definition verify ::
    "'h keccak \<Rightarrow> arith_mode \<Rightarrow> 32 bytes \<Rightarrow> 32 bytes list \<Rightarrow> u64 \<Rightarrow> 32 bytes \<Rightarrow> bool panicking" where
  "verify K m leaf siblings index_bits root =
     map_option (\<lambda>r. r = root) (compute_root K m leaf siblings index_bits)"

lemma root_loop_fold:
  "level + length ss \<le> 64 \<Longrightarrow>
     root_loop K m bits level n ss = Some (fold_path (hash_pair K) (bit bits) level n ss)"
  by (induction ss arbitrary: level n) (auto simp: drop_bit_and_one_eq Let_def)

interpretation off: merkle_verifier "hash_pair K" "compute_root K m" "verify K m"
  for K :: "'h keccak" and m
  by unfold_locales (simp_all add: compute_root_def verify_def root_loop_fold)

section \<open>The tree\<close>

record merkle_tree =
  mt_levels :: "32 bytes list list"

text \<open>The inner loop of \<open>from_leaves\<close>: the next level, two nodes at a time.\<close>

function next_level_loop ::
    "('a \<Rightarrow> 'a \<Rightarrow> 'a) \<Rightarrow> 'a list \<Rightarrow> nat \<Rightarrow> 'a list \<Rightarrow> 'a list" where
  "next_level_loop hp cur i next =
     (if i < length cur then
        let left = cur ! i;
            right = (if i + 1 < length cur then cur ! (i + 1) else cur ! i)
        in next_level_loop hp cur (i + 2) (next @ [hp left right])
      else next)"
  by pat_completeness auto
termination
  by (relation "measure (\<lambda>(hp, cur, i, next). length cur - i)") auto

declare next_level_loop.simps [simp del]

definition next_level :: "('a \<Rightarrow> 'a \<Rightarrow> 'a) \<Rightarrow> 'a list \<Rightarrow> 'a list" where
  "next_level hp cur = next_level_loop hp cur 0 []"

text \<open>The same level by structural recursion, which the proofs use.\<close>

fun pair_up :: "('a \<Rightarrow> 'a \<Rightarrow> 'a) \<Rightarrow> 'a list \<Rightarrow> 'a list" where
  "pair_up hp [] = []"
| "pair_up hp [x] = [hp x x]"
| "pair_up hp (x # y # zs) = hp x y # pair_up hp zs"

lemma next_level_loop_eq: "next_level_loop hp cur i next = next @ pair_up hp (drop i cur)"
proof (induction hp cur i "next" rule: next_level_loop.induct)
  case (1 hp cur i "next")
  show ?case
  proof (cases "i < length cur")
    case False
    then show ?thesis by (simp add: next_level_loop.simps)
  next
    case True
    then have d: "drop i cur = cur ! i # drop (Suc i) cur"
      by (simp add: Cons_nth_drop_Suc)
    show ?thesis
    proof (cases "Suc i < length cur")
      case True
      then have "drop (Suc i) cur = cur ! Suc i # drop (i + 2) cur"
        by (simp add: Cons_nth_drop_Suc)
      with d True "1.IH" show ?thesis
        by (simp add: next_level_loop.simps [of hp cur i])
    next
      case False
      with d \<open>i < length cur\<close> "1.IH" show ?thesis
        by (simp add: next_level_loop.simps [of hp cur i])
    qed
  qed
qed

lemma next_level_eq: "next_level hp cur = pair_up hp cur"
  by (simp add: next_level_def next_level_loop_eq)

lemma length_pair_up [simp]: "length (pair_up hp cur) = (length cur + 1) div 2"
  by (induction hp cur rule: pair_up.induct) auto

lemma nth_pair_up:
  "j < (length cur + 1) div 2 \<Longrightarrow>
     pair_up hp cur ! j = hp (cur ! (2 * j)) (cur ! min (2 * j + 1) (length cur - 1))"
proof (induction hp cur arbitrary: j rule: pair_up.induct)
  case (3 hp x y zs)
  show ?case
  proof (cases j)
    case (Suc k)
    with "3.prems" have k: "k < (length zs + 1) div 2" by simp
    then have "min (2 * j + 1) (length (x # y # zs) - 1) = Suc (Suc (min (2 * k + 1) (length zs - 1)))"
      using Suc by auto
    with Suc "3.IH" [OF k] show ?thesis by simp
  qed simp
qed simp_all

text \<open>
  The outer loop: push levels until the last one holds a single node. \<open>levels.last()\<close> is
  never empty here, because the loop starts from one level and only pushes.
\<close>

function build_loop :: "('a \<Rightarrow> 'a \<Rightarrow> 'a) \<Rightarrow> 'a list list \<Rightarrow> 'a list list" where
  "build_loop hp levels =
     (if 1 < length (last levels)
      then build_loop hp (levels @ [next_level hp (last levels)])
      else levels)"
  by pat_completeness auto
termination
  by (relation "measure (\<lambda>(hp, levels). length (last levels))") (auto simp: next_level_eq)

declare build_loop.simps [simp del]

definition from_leaves :: "'h keccak \<Rightarrow> 32 bytes list \<Rightarrow> merkle_tree" where
  "from_leaves K leaves =
     (if leaves = [] then \<lparr>mt_levels = [[arr_fill 0]]\<rparr>
      else \<lparr>mt_levels = build_loop (hash_pair K) [leaves]\<rparr>)"

text \<open>\<open>*self.levels.last().unwrap().last().unwrap()\<close> and \<open>self.levels[0].len()\<close>.\<close>

definition tree_root :: "merkle_tree \<Rightarrow> 32 bytes panicking" where
  "tree_root t =
     (if mt_levels t = [] then None
      else if last (mt_levels t) = [] then None
      else Some (last (last (mt_levels t))))"

definition leaf_count :: "merkle_tree \<Rightarrow> nat panicking" where
  "leaf_count t = map_option length (elem_get (mt_levels t) 0)"

text \<open>The loop of \<open>proof\<close> over \<open>self.levels.iter().enumerate()\<close>.\<close>

fun proof_loop ::
    "arith_mode \<Rightarrow> nat \<Rightarrow> 'a list list \<Rightarrow> nat \<Rightarrow> 'a list \<Rightarrow> u64 \<Rightarrow> ('a list \<times> u64) panicking"
where
  "proof_loop m level [] idx siblings index_bits = Some (siblings, index_bits)"
| "proof_loop m level (nodes # rest) idx siblings index_bits =
     (if length nodes \<le> 1 then Some (siblings, index_bits)
      else
        let is_right = (idx mod 2 = 1);
            sib_idx = (if is_right then idx - 1 else min (idx + 1) (length nodes - 1))
        in case elem_get nodes sib_idx of
             None \<Rightarrow> None
           | Some sib \<Rightarrow>
               if is_right then
                 (case shl_u64 m 1 level of
                    None \<Rightarrow> None
                  | Some x \<Rightarrow>
                      proof_loop m (Suc level) rest (idx div 2) (siblings @ [sib]) (index_bits OR x))
               else proof_loop m (Suc level) rest (idx div 2) (siblings @ [sib]) index_bits)"

definition tree_proof ::
    "arith_mode \<Rightarrow> merkle_tree \<Rightarrow> nat \<Rightarrow> (32 bytes list \<times> u64) option panicking" where
  "tree_proof m t index =
     (case leaf_count t of
        None \<Rightarrow> None
      | Some n \<Rightarrow>
          if n \<le> index then Some None
          else map_option Some (proof_loop m 0 (mt_levels t) index [] 0))"

section \<open>Shape of the tree\<close>

text \<open>The levels from \<open>cur\<close> upwards, their number and their single last node.\<close>

function levels_from :: "('a \<Rightarrow> 'a \<Rightarrow> 'a) \<Rightarrow> 'a list \<Rightarrow> 'a list list" where
  "levels_from hp cur =
     (if 1 < length cur then cur # levels_from hp (pair_up hp cur) else [cur])"
  by pat_completeness auto
termination
  by (relation "measure (\<lambda>(hp, cur). length cur)") auto

function tree_depth :: "nat \<Rightarrow> nat" where
  "tree_depth n = (if 1 < n then Suc (tree_depth ((n + 1) div 2)) else 0)"
  by pat_completeness auto
termination
  by (relation "measure id") auto

function mroot :: "('a \<Rightarrow> 'a \<Rightarrow> 'a) \<Rightarrow> 'a list \<Rightarrow> 'a" where
  "mroot hp cur = (if 1 < length cur then mroot hp (pair_up hp cur) else hd cur)"
  by pat_completeness auto
termination
  by (relation "measure (\<lambda>(hp, cur). length cur)") auto

function auth_path :: "('a \<Rightarrow> 'a \<Rightarrow> 'a) \<Rightarrow> 'a list \<Rightarrow> nat \<Rightarrow> 'a list" where
  "auth_path hp cur i =
     (if 1 < length cur
      then (if odd i then cur ! (i - 1) else cur ! min (i + 1) (length cur - 1)) #
           auth_path hp (pair_up hp cur) (i div 2)
      else [])"
  by pat_completeness auto
termination
  by (relation "measure (\<lambda>(hp, cur, i). length cur)") auto

declare levels_from.simps [simp del] tree_depth.simps [simp del]
  mroot.simps [simp del] auth_path.simps [simp del]

text \<open>Unfolding one level, where the number of nodes decides which case applies.\<close>

lemma tree_step:
  assumes "1 < length cur"
  shows "levels_from hp cur = cur # levels_from hp (pair_up hp cur)"
    and "tree_depth (length cur) = Suc (tree_depth ((length cur + 1) div 2))"
    and "mroot hp cur = mroot hp (pair_up hp cur)"
    and "auth_path hp cur i =
      (if odd i then cur ! (i - 1) else cur ! min (i + 1) (length cur - 1)) #
      auth_path hp (pair_up hp cur) (i div 2)"
  using assms
  by (simp_all add: levels_from.simps [of hp cur] tree_depth.simps [of "length cur"]
      mroot.simps [of hp cur] auth_path.simps [of hp cur])

lemma tree_top:
  assumes "\<not> 1 < length cur"
  shows "levels_from hp cur = [cur]" and "tree_depth (length cur) = 0"
    and "mroot hp cur = hd cur" and "auth_path hp cur i = []"
  using assms
  by (simp_all add: levels_from.simps [of hp cur] tree_depth.simps [of "length cur"]
      mroot.simps [of hp cur] auth_path.simps [of hp cur])

lemma build_loop_eq: "build_loop hp (pre @ [cur]) = pre @ levels_from hp cur"
proof (induction hp cur arbitrary: pre rule: levels_from.induct)
  case (1 hp cur)
  show ?case
    using "1.IH" [of "pre @ [cur]"]
    by (cases "1 < length cur")
      (simp_all add: build_loop.simps [of hp "pre @ [cur]"] tree_step tree_top next_level_eq)
qed

lemma from_leaves_levels:
  "leaves \<noteq> [] \<Longrightarrow> mt_levels (from_leaves K leaves) = levels_from (hash_pair K) leaves"
  using build_loop_eq [of "hash_pair K" "[]" leaves] by (simp add: from_leaves_def)

lemma levels_from_not_Nil [simp]: "levels_from hp cur \<noteq> []"
  by (simp add: levels_from.simps)

lemma hd_levels_from [simp]: "hd (levels_from hp cur) = cur"
  by (simp add: levels_from.simps)

lemma pair_up_Nil_iff [simp]: "pair_up hp cur = [] \<longleftrightarrow> cur = []"
  by (cases "(hp, cur)" rule: pair_up.cases) auto

lemma length_levels_from: "length (levels_from hp cur) = Suc (tree_depth (length cur))"
proof (induction hp cur rule: levels_from.induct)
  case (1 hp cur)
  then show ?case by (cases "1 < length cur") (simp_all add: tree_step tree_top)
qed

lemma last_levels_from: "cur \<noteq> [] \<Longrightarrow> last (levels_from hp cur) = [mroot hp cur]"
proof (induction hp cur rule: levels_from.induct)
  case (1 hp cur)
  show ?case
  proof (cases "1 < length cur")
    case True
    with 1 show ?thesis by (simp add: tree_step)
  next
    case False
    with "1.prems" obtain x where "cur = [x]" by (cases cur) auto
    then show ?thesis by (simp add: tree_top)
  qed
qed

text \<open>The tree over \<open>n\<close> leaves has the least depth that holds them.\<close>

lemma tree_depth_le_iff: "0 < n \<Longrightarrow> tree_depth n \<le> d \<longleftrightarrow> n \<le> 2 ^ d"
proof (induction n arbitrary: d rule: tree_depth.induct)
  case (1 n)
  show ?case
  proof (cases "1 < n")
    case True
    have half_le: "(n + 1) div 2 \<le> k \<longleftrightarrow> n \<le> 2 * k" for k :: nat
      by arith
    show ?thesis
    proof (cases d)
      case 0
      with True show ?thesis by (simp add: tree_depth.simps [of n])
    next
      case (Suc e)
      have "tree_depth ((n + 1) div 2) \<le> e \<longleftrightarrow> (n + 1) div 2 \<le> 2 ^ e"
        using True by (intro "1.IH") auto
      also have "\<dots> \<longleftrightarrow> n \<le> 2 ^ d"
        using Suc half_le [of "2 ^ e"] by simp
      finally show ?thesis
        using True Suc by (simp add: tree_depth.simps [of n])
    qed
  next
    case False
    then have "n \<le> 2 ^ d"
      using one_le_power [of "2 :: nat" d] by linarith
    with False show ?thesis by (simp add: tree_depth.simps [of n])
  qed
qed

lemma length_auth_path: "length (auth_path hp cur i) = tree_depth (length cur)"
proof (induction hp cur i rule: auth_path.induct)
  case (1 hp cur i)
  then show ?case by (cases "1 < length cur") (simp_all add: tree_step tree_top)
qed

section \<open>Proofs are complete\<close>

lemma auth_step_index:
  assumes "1 < length cur" and "i < length cur"
  shows "pair_up hp cur ! (i div 2) =
    (if odd i then hp (cur ! (i - 1)) (cur ! i) else hp (cur ! i) (cur ! min (i + 1) (length cur - 1)))"
proof -
  have "i div 2 < (length cur + 1) div 2" using assms by arith
  moreover have "odd i \<Longrightarrow> 2 * (i div 2) = i - 1 \<and> min (2 * (i div 2) + 1) (length cur - 1) = i"
    using assms by (auto elim!: oddE)
  moreover have "even i \<Longrightarrow> 2 * (i div 2) = i" by simp
  ultimately show ?thesis by (auto simp: nth_pair_up)
qed

text \<open>Climbing an authentication path along the bits of the index ends in the root.\<close>

lemma fold_auth_path:
  assumes "i < length cur" and "\<And>k. k < tree_depth (length cur) \<Longrightarrow> dir (lvl + k) = bit i k"
  shows "fold_path hp dir lvl (cur ! i) (auth_path hp cur i) = mroot hp cur"
  using assms
proof (induction hp cur i arbitrary: lvl rule: auth_path.induct)
  case (1 hp cur i)
  show ?case
  proof (cases "1 < length cur")
    case False
    with "1.prems" have "i = 0" "cur \<noteq> []" by auto
    with False show ?thesis by (simp add: tree_top hd_conv_nth)
  next
    case True
    have d: "tree_depth (length cur) = Suc (tree_depth (length (pair_up hp cur)))"
      using True by (simp add: tree_step(2))
    have dir: "dir lvl = odd i"
      using "1.prems"(2) [of 0] d by (simp add: bit_0)
    have "dir (Suc lvl + k) = bit (i div 2) k" if "k < tree_depth (length (pair_up hp cur))" for k
      using "1.prems"(2) [of "Suc k"] d that by (simp add: bit_Suc)
    moreover have "i div 2 < length (pair_up hp cur)"
      using True "1.prems"(1) by simp
    ultimately have "fold_path hp dir (Suc lvl) (pair_up hp cur ! (i div 2))
        (auth_path hp (pair_up hp cur) (i div 2)) = mroot hp (pair_up hp cur)"
      using "1.IH" True by blast
    with dir auth_step_index [OF True "1.prems"(1), of hp] show ?thesis
      by (cases "odd i") (simp_all add: tree_step(3,4) [OF True])
  qed
qed

lemma push_bit_of_nat_step:
  "lvl < 64 \<Longrightarrow> (push_bit lvl (of_nat i) :: u64) =
     (if odd i then push_bit lvl 1 else 0) OR push_bit (Suc lvl) (of_nat (i div 2))"
proof (rule bit_word_eqI)
  fix n assume "lvl < 64" "n < LENGTH(64)"
  show "bit (push_bit lvl (of_nat i) :: u64) n =
      bit ((if odd i then push_bit lvl 1 else 0) OR push_bit (Suc lvl) (of_nat (i div 2)) :: u64) n"
  proof (cases "n \<le> lvl")
    case True
    then show ?thesis
      by (cases "n = lvl")
        (auto simp: bit_push_bit_iff bit_or_iff bit_1_iff bit_of_nat_iff bit_0 simp del: push_bit_of_1)
  next
    case False
    then obtain j where "n = Suc (lvl + j)" by (metis less_natE not_le_imp_less)
    moreover have "bit i (Suc j) = bit (i div 2) j" by (simp add: bit_Suc)
    ultimately show ?thesis
      using \<open>n < LENGTH(64)\<close>
      by (auto simp: bit_push_bit_iff bit_or_iff bit_1_iff bit_of_nat_iff
          simp del: push_bit_of_1 push_bit_Suc)
  qed
qed

lemma proof_loop_step:
  assumes "1 < length cur" and "i < length cur" and "lvl < 64"
  shows "proof_loop m lvl (cur # rest) i sibs bits =
    proof_loop m (Suc lvl) rest (i div 2)
      (sibs @ [if odd i then cur ! (i - 1) else cur ! min (i + 1) (length cur - 1)])
      (bits OR (if odd i then push_bit lvl 1 else 0))"
proof -
  have "min (i + 1) (length cur - 1) < length cur" "i - 1 < length cur"
    using assms by arith+
  with assms show ?thesis
    by (cases "odd i") (simp_all add: elem_get_def Let_def odd_iff_mod_2_eq_one)
qed

text \<open>
  The loop of \<open>proof\<close> neither indexes out of range nor shifts too far while the tree is at
  most 64 levels deep, and returns the authentication path and the bits of the index.
\<close>

lemma proof_loop_eq:
  assumes "i < length cur" and "lvl + tree_depth (length cur) \<le> 64"
  shows "proof_loop m lvl (levels_from hp cur) i sibs bits =
    Some (sibs @ auth_path hp cur i, bits OR push_bit lvl (of_nat i))"
  using assms
proof (induction hp cur i arbitrary: lvl sibs bits rule: auth_path.induct)
  case (1 hp cur i)
  show ?case
  proof (cases "1 < length cur")
    case False
    with "1.prems" have "i = 0" by auto
    with False show ?thesis by (simp add: tree_top)
  next
    case True
    have d: "tree_depth (length cur) = Suc (tree_depth (length (pair_up hp cur)))"
      using True by (simp add: tree_step(2))
    have half: "i div 2 < length (pair_up hp cur)"
      using True "1.prems"(1) by simp
    have IH: "proof_loop m (Suc lvl) (levels_from hp (pair_up hp cur)) (i div 2) sibs' bits' =
        Some (sibs' @ auth_path hp (pair_up hp cur) (i div 2),
              bits' OR push_bit (Suc lvl) (of_nat (i div 2)))" for sibs' bits'
      using "1.IH" [OF True half] "1.prems"(2) d by simp
    have "lvl < 64" using "1.prems"(2) d by simp
    have "proof_loop m lvl (levels_from hp cur) i sibs bits =
        proof_loop m (Suc lvl) (levels_from hp (pair_up hp cur)) (i div 2)
          (sibs @ [if odd i then cur ! (i - 1) else cur ! min (i + 1) (length cur - 1)])
          (bits OR (if odd i then push_bit lvl 1 else 0))"
      using True "1.prems"(1) \<open>lvl < 64\<close> by (simp only: tree_step(1) proof_loop_step)
    also have "\<dots> = Some (sibs @ auth_path hp cur i, bits OR push_bit lvl (of_nat i))"
      unfolding IH push_bit_of_nat_step [OF \<open>lvl < 64\<close>, of i] tree_step(4) [OF True]
      by (simp only: or.assoc append_assoc append_Cons append_Nil)
    finally show ?thesis .
  qed
qed

section \<open>Proofs are sound\<close>

text \<open>The ordered pairs that building the tree over \<open>cur\<close> hashes, level by level.\<close>

definition level_pairs :: "'a list \<Rightarrow> ('a \<times> 'a) list" where
  "level_pairs cur =
     map (\<lambda>j. (cur ! (2 * j), cur ! min (2 * j + 1) (length cur - 1))) [0..<(length cur + 1) div 2]"

definition tree_pairs :: "('a \<Rightarrow> 'a \<Rightarrow> 'a) \<Rightarrow> 'a list \<Rightarrow> ('a \<times> 'a) list" where
  "tree_pairs hp cur = concat (map level_pairs (butlast (levels_from hp cur)))"

lemma tree_pairs_step:
  "1 < length cur \<Longrightarrow> tree_pairs hp cur = level_pairs cur @ tree_pairs hp (pair_up hp cur)"
  by (simp add: tree_pairs_def tree_step(1))

lemma level_pairs_hash:
  assumes "i < length (pair_up hp cur)"
  obtains q where "q \<in> set (level_pairs cur)" and "pair_up hp cur ! i = hash_of hp q"
    and "fst q \<in> set cur" and "snd q \<in> set cur"
proof -
  let ?q = "(cur ! (2 * i), cur ! min (2 * i + 1) (length cur - 1))"
  have "2 * i < length cur" "min (2 * i + 1) (length cur - 1) < length cur"
    using assms by auto
  with assms have "?q \<in> set (level_pairs cur)" "pair_up hp cur ! i = hash_of hp ?q"
      "fst ?q \<in> set cur" "snd ?q \<in> set cur"
    by (auto simp: level_pairs_def hash_of_def nth_pair_up)
  then show thesis by (rule that)
qed

text \<open>
  A path of the depth of the tree that ends in its root starts at one of the leaves, or
  hashes a pair that collides with a pair of the tree.
\<close>

lemma fold_path_sound:
  assumes "cur \<noteq> []" and "length ss = tree_depth (length cur)"
    and "fold_path hp dir lvl x ss = mroot hp cur"
  shows "x \<in> set cur \<or>
    (\<exists>p q. p \<in> set (path_pairs hp dir lvl x ss) \<and> q \<in> set (tree_pairs hp cur) \<and> colliding hp p q)"
  using assms
proof (induction hp cur arbitrary: lvl x ss rule: mroot.induct)
  case (1 hp cur)
  show ?case
  proof (cases "1 < length cur")
    case False
    with "1.prems" show ?thesis by (auto simp: tree_top)
  next
    case True
    with "1.prems"(2) obtain s ss' where ss: "ss = s # ss'"
      by (cases ss) (simp_all add: tree_step(2))
    let ?p = "pair_at dir lvl x s"
    have "hash_of hp ?p \<in> set (pair_up hp cur) \<or>
        (\<exists>p q. p \<in> set (path_pairs hp dir (Suc lvl) (hash_of hp ?p) ss') \<and>
          q \<in> set (tree_pairs hp (pair_up hp cur)) \<and> colliding hp p q)"
      using "1.prems" True ss
      by (intro "1.IH") (simp_all add: tree_step(2,3) fold_path_Cons del: fold_path.simps)
    then show ?thesis
    proof
      assume "hash_of hp ?p \<in> set (pair_up hp cur)"
      then obtain i where i: "i < length (pair_up hp cur)" "pair_up hp cur ! i = hash_of hp ?p"
        by (metis in_set_conv_nth)
      obtain q where q: "q \<in> set (level_pairs cur)" "pair_up hp cur ! i = hash_of hp q"
          "fst q \<in> set cur" "snd q \<in> set cur"
        using i(1) by (rule level_pairs_hash)
      show ?thesis
      proof (cases "?p = q")
        case True
        with q show ?thesis by (auto simp: pair_at_def split: if_splits)
      next
        case False
        with i q ss True show ?thesis
          by (intro disjI2 exI [of _ ?p] exI [of _ q]) (simp add: colliding_def tree_pairs_step)
      qed
    next
      assume "\<exists>p q. p \<in> set (path_pairs hp dir (Suc lvl) (hash_of hp ?p) ss') \<and>
          q \<in> set (tree_pairs hp (pair_up hp cur)) \<and> colliding hp p q"
      with ss True show ?thesis by (auto simp: tree_pairs_step)
    qed
  qed
qed

section \<open>The tree of a list of leaves\<close>

lemma tree_root_from_leaves:
  "leaves \<noteq> [] \<Longrightarrow> tree_root (from_leaves K leaves) = Some (mroot (hash_pair K) leaves)"
  by (simp add: tree_root_def from_leaves_levels last_levels_from)

lemma tree_root_empty: "tree_root (from_leaves K []) = Some (arr_fill 0)"
  by (simp add: tree_root_def from_leaves_def)

lemma leaf_count_from_leaves:
  "leaf_count (from_leaves K leaves) = Some (if leaves = [] then 1 else length leaves)"
  by (simp add: leaf_count_def from_leaves_levels elem_get_def hd_conv_nth [symmetric])
    (simp add: from_leaves_def)

lemma tree_proof_from_leaves:
  assumes "i < length leaves" and "length leaves \<le> 2 ^ 64"
  shows "tree_proof m (from_leaves K leaves) i =
    Some (Some (auth_path (hash_pair K) leaves i, of_nat i))"
proof -
  from assms have "0 < length leaves" by linarith
  with assms have "tree_depth (length leaves) \<le> 64" by (simp add: tree_depth_le_iff)
  with assms show ?thesis
    using proof_loop_eq [of i leaves 0 m "hash_pair K" "[]" 0]
    by (auto simp: tree_proof_def leaf_count_from_leaves from_leaves_levels)
qed

lemma tree_proof_out:
  "max 1 (length leaves) \<le> i \<Longrightarrow> tree_proof m (from_leaves K leaves) i = Some None"
  by (auto simp: tree_proof_def leaf_count_from_leaves)

text \<open>The tree over no leaves proves its zero node with the empty proof.\<close>

lemma tree_proof_nil: "tree_proof m (from_leaves K []) 0 = Some (Some ([], 0))"
  by (simp add: tree_proof_def leaf_count_def from_leaves_def elem_get_def)

lemma fold_auth_path_bits:
  assumes "i < length leaves" and "length leaves \<le> 2 ^ 64"
  shows "fold_path hp (bit (of_nat i :: u64)) 0 (leaves ! i) (auth_path hp leaves i) = mroot hp leaves"
proof -
  from assms have "0 < length leaves" by linarith
  with assms have depth: "tree_depth (length leaves) \<le> 64" by (simp add: tree_depth_le_iff)
  have "bit (of_nat i :: u64) k = bit i k" if "k < tree_depth (length leaves)" for k
    using that depth by (simp add: bit_of_nat_iff)
  then show ?thesis
    using assms(1) by (intro fold_auth_path) auto
qed

text \<open>
  A concrete hash for the examples below: the first 32 bytes of the zero-padded input.
\<close>

definition trunc_keccak :: "u8 list keccak" where
  "trunc_keccak = \<lparr>k_new = [], k_update = (\<lambda>h b. h @ b),
     k_finalize = (\<lambda>h. arr_of (take 32 (h @ replicate 32 0)))\<rparr>"

lemma hash_pair_trunc [simp]: "hash_pair trunc_keccak a b = a"
  by (simp add: hash_pair_def trunc_keccak_def Let_def)

section \<open>Properties\<close>

text \<open>
  C7 Completeness of the off-chain tree: for every leaf of a tree of at most \<open>2 ^ 64\<close>
  leaves, \<open>proof\<close> returns a proof without panicking, its direction bits are the leaf's
  index, the off-chain check accepts it against the root of the tree, and it has the
  least number of siblings for that many leaves.
\<close>

theorem tree_proof_complete:
  assumes "i < length leaves" and "length leaves \<le> 2 ^ 64"
  shows "\<exists>ss bits r.
    tree_proof m (from_leaves K leaves) i = Some (Some (ss, bits)) \<and>
    tree_root (from_leaves K leaves) = Some r \<and>
    verify K m (leaves ! i) ss bits r = Some True \<and>
    unat bits = i \<and> (\<forall>d. length ss \<le> d \<longleftrightarrow> length leaves \<le> 2 ^ d)"
proof -
  let ?hp = "hash_pair K" and ?bits = "of_nat i :: u64"
  from assms have ne: "leaves \<noteq> []" "0 < length leaves" by auto
  with assms have depth: "tree_depth (length leaves) \<le> 64" by (simp add: tree_depth_le_iff)
  with fold_auth_path_bits [OF assms, of ?hp] have "verify K m (leaves ! i) (auth_path ?hp leaves i) ?bits (mroot ?hp leaves) = Some True"
    by (simp add: off.vfy_iff length_auth_path)
  moreover have "unat ?bits = i"
    using assms by (simp add: unat_of_nat)
  ultimately show ?thesis
    using assms ne tree_proof_from_leaves [OF assms, of m K]
    by (simp add: tree_root_from_leaves length_auth_path tree_depth_le_iff)
qed

theorem tree_proof_complete_witness:
  "\<exists>ss bits r.
    tree_proof Checked (from_leaves trunc_keccak (map arr_fill [1, 2, 3])) 2 = Some (Some (ss, bits)) \<and>
    tree_root (from_leaves trunc_keccak (map arr_fill [1, 2, 3])) = Some r \<and>
    verify trunc_keccak Checked (arr_fill 3) ss bits r = Some True \<and> unat bits = 2 \<and> length ss \<le> 2"
  using tree_proof_complete [of 2 "map arr_fill [1, 2, 3]" Checked trunc_keccak] by auto

text \<open>
  C8 Soundness of the off-chain check against a tree: a proof with as many siblings as the
  tree has levels above its leaves, accepted against the root of the tree, proves one of
  the leaves; otherwise one of the pairs it makes the check hash collides with a pair that
  was hashed to build the tree.
\<close>

theorem tree_proof_sound:
  assumes "leaves \<noteq> []" and "length leaves \<le> 2 ^ 64"
    and "tree_root (from_leaves K leaves) = Some r"
    and "length ss = tree_depth (length leaves)"
    and "verify K m leaf ss bits r = Some True"
  shows "leaf \<in> set leaves \<or>
    (\<exists>p q. p \<in> set (path_pairs (hash_pair K) (bit bits) 0 leaf ss) \<and>
      q \<in> set (tree_pairs (hash_pair K) leaves) \<and> colliding (hash_pair K) p q)"
proof -
  have "length ss \<le> 64" using assms by (simp add: tree_depth_le_iff)
  with assms show ?thesis
    by (intro fold_path_sound) (simp_all add: tree_root_from_leaves off.vfy_iff)
qed

theorem tree_proof_sound_witness:
  "arr_fill 1 \<in> set (map arr_fill [1, 2] :: 32 bytes list) \<or>
    (\<exists>p q. p \<in> set (path_pairs (hash_pair trunc_keccak) (bit (0 :: u64)) 0 (arr_fill 1) [arr_fill 2]) \<and>
      q \<in> set (tree_pairs (hash_pair trunc_keccak) (map arr_fill [1, 2])) \<and>
      colliding (hash_pair trunc_keccak) p q)"
proof (rule tree_proof_sound [of "map arr_fill [1, 2]" trunc_keccak "arr_fill 1" "[arr_fill 2]" Checked
      "arr_fill 1" 0])
  show "tree_root (from_leaves trunc_keccak (map arr_fill [1, 2])) = Some (arr_fill 1)"
    by (simp add: tree_root_from_leaves mroot.simps)
  show "length [arr_fill 2 :: 32 bytes] = tree_depth (length (map arr_fill [1, 2] :: 32 bytes list))"
    by (simp add: tree_depth.simps)
qed (simp_all add: off.vfy_iff)

text \<open>
  \<open>proof\<close> returns \<open>None\<close> exactly for an index that is not below \<open>leaf_count\<close>, and
  never panics; \<open>leaf_count\<close> is the number of leaves, except that the tree over no leaves
  counts one, the zero node, and proves it with the empty proof.
\<close>

lemma tree_proof_range:
  "(length leaves \<le> 2 ^ 64 \<longrightarrow>
     (tree_proof m (from_leaves K leaves) i = Some None \<longleftrightarrow> max 1 (length leaves) \<le> i) \<and>
     tree_proof m (from_leaves K leaves) i \<noteq> None) \<and>
   leaf_count (from_leaves K leaves) = Some (max 1 (length leaves)) \<and>
   tree_root (from_leaves K []) = Some (arr_fill 0) \<and>
   tree_proof m (from_leaves K []) 0 = Some (Some ([], 0))"
proof -
  have lc: "leaf_count (from_leaves K leaves) = Some (max 1 (length leaves))"
    by (cases leaves) (simp_all add: leaf_count_from_leaves)
  note nil = tree_proof_nil [of m K]
  have "(tree_proof m (from_leaves K leaves) i = Some None \<longleftrightarrow> max 1 (length leaves) \<le> i) \<and>
      tree_proof m (from_leaves K leaves) i \<noteq> None" if le: "length leaves \<le> 2 ^ 64"
  proof (cases "max 1 (length leaves) \<le> i")
    case True
    then show ?thesis using tree_proof_out [of leaves i m K] by simp
  next
    case False
    then have "\<exists>p. tree_proof m (from_leaves K leaves) i = Some (Some p)"
      using nil tree_proof_from_leaves [OF _ le, of i m K] by (cases leaves; cases i) auto
    with False show ?thesis by auto
  qed
  with lc nil show ?thesis by (simp add: tree_root_empty)
qed

text \<open>Duplicating the last node of an odd level is what the pairing does itself.\<close>

lemma pair_up_padded: "odd (length cur) \<Longrightarrow> pair_up hp (cur @ [last cur]) = pair_up hp cur"
  by (induction hp cur rule: pair_up.induct) auto

lemma mroot_padded:
  assumes "odd (length cur)" and "1 < length cur"
  shows "mroot hp (cur @ [last cur]) = mroot hp cur"
  using tree_step(3) [of cur hp] tree_step(3) [of "cur @ [last cur]" hp] assms pair_up_padded [OF assms(1), of hp]
  by (cases cur) simp_all

text \<open>
  C29 The root does not determine the leaves: a tree of an odd number of at least three
  leaves has the root of the tree in which its last leaf is listed twice. So the last leaf
  of the smaller tree is also accepted at an index that its own \<open>proof\<close> refuses.
\<close>

theorem padded_trees_share_roots:
  assumes "odd (length leaves)" and "1 < length leaves" and "length leaves < 2 ^ 64"
  shows "tree_root (from_leaves K (leaves @ [last leaves])) = tree_root (from_leaves K leaves) \<and>
    tree_proof m (from_leaves K leaves) (length leaves) = Some None \<and>
    (\<exists>ss r. tree_root (from_leaves K leaves) = Some r \<and>
      verify K m (last leaves) ss (of_nat (length leaves)) r = Some True)"
proof -
  let ?padded = "leaves @ [last leaves]" and ?n = "length leaves"
  have ne: "leaves \<noteq> []" using assms(2) by auto
  have fits: "?n < length ?padded" "length ?padded \<le> 2 ^ 64" using assms(3) by simp_all
  have "length (auth_path (hash_pair K) ?padded ?n) \<le> 64"
    using fits(2) tree_depth_le_iff [of "length ?padded" 64] by (simp only: length_auth_path) simp
  with fold_auth_path_bits [OF fits, of "hash_pair K"] mroot_padded [OF assms(1,2), of "hash_pair K"]
  have "verify K m (last leaves) (auth_path (hash_pair K) ?padded ?n) (of_nat ?n) (mroot (hash_pair K) leaves) = Some True"
    by (simp add: off.vfy_iff)
  then show ?thesis
    using ne mroot_padded [OF assms(1,2), of "hash_pair K"] tree_proof_out [of leaves ?n m K] assms(2)
    by (auto simp: tree_root_from_leaves)
qed

theorem padded_trees_share_roots_witness:
  "tree_root (from_leaves trunc_keccak [arr_fill 1, arr_fill 2, arr_fill 3, arr_fill 3]) =
   tree_root (from_leaves trunc_keccak [arr_fill 1, arr_fill 2, arr_fill 3])"
  using padded_trees_share_roots [of "[arr_fill 1, arr_fill 2, arr_fill 3]" trunc_keccak Checked] by simp

end
