(* ===== verification/Merkle_Agreement.thy ===== *)
theory Merkle_Agreement
  imports Merkle_Onchain Merkle_Offchain
begin

text \<open>
  The two Merkle modules against each other: what the off-chain service proves is what the
  on-chain program checks. The only assumption is that the two hash libraries compute the
  same function: hashing two slices at once with \<open>hashv\<close> and feeding them one after the
  other to the incremental hasher give the same digest, which is how both document
  Keccak-256.
\<close>

definition hash_agree :: "hashv \<Rightarrow> 'h keccak \<Rightarrow> bool" where
  "hash_agree hashv K \<longleftrightarrow>
     (\<forall>a b. hashv [a, b] = k_finalize K (k_update K (k_update K (k_new K) a) b))"

lemma hash_agreeD: "hash_agree hashv K \<Longrightarrow> oc_hash_pair hashv = hash_pair K"
  by (intro ext) (simp add: hash_agree_def oc_hash_pair_def hash_pair_def Let_def)

text \<open>The example hash as a \<open>hashv\<close>.\<close>

definition trunc_hashv :: hashv where
  "trunc_hashv parts = arr_of (take 32 (concat parts @ replicate 32 0))"

lemma hash_agree_trunc: "hash_agree trunc_hashv trunc_keccak"
  by (simp add: hash_agree_def trunc_hashv_def trunc_keccak_def)

lemma oc_hash_pair_trunc [simp]: "oc_hash_pair trunc_hashv a b = a"
  by (simp add: hash_agreeD [OF hash_agree_trunc])

section \<open>Properties\<close>

text \<open>
  C16 The two checks are the same function: on every input the on-chain check returns what
  the off-chain check of an overflow-checked build returns (a panic for more than 64
  siblings included), and up to 64 siblings what the check of a release build returns.
\<close>

theorem verifiers_agree:
  assumes "hash_agree hashv K"
  shows "oc_verify hashv leaf ss bits root = verify K Checked leaf ss bits root \<and>
    (length ss \<le> 64 \<longrightarrow> oc_verify hashv leaf ss bits root = verify K Wrapping leaf ss bits root)"
proof -
  note hp = hash_agreeD [OF assms]
  have "oc_root_loop hashv bits level n ss = root_loop K Checked bits level n ss" for level n
    by (induction ss arbitrary: level n) (simp_all add: hp Let_def split: option.splits)
  then show ?thesis
    by (simp add: oc_verify_def verify_def oc_compute_root_def compute_root_def
        root_loop_fold oc_root_loop_fold hp)
qed

theorem verifiers_agree_witness:
  "oc_verify trunc_hashv (arr_fill 1) [arr_fill 2] 1 (arr_fill 2) =
     verify trunc_keccak Checked (arr_fill 1) [arr_fill 2] 1 (arr_fill 2) \<and>
   oc_verify trunc_hashv (arr_fill 1) [arr_fill 2] 1 (arr_fill 2) =
     verify trunc_keccak Wrapping (arr_fill 1) [arr_fill 2] 1 (arr_fill 2)"
proof -
  have "length [arr_fill 2 :: 32 bytes] \<le> 64" by simp
  then show ?thesis
    using verifiers_agree [OF hash_agree_trunc, of "arr_fill 1" "[arr_fill 2]" 1 "arr_fill 2"] by blast
qed

end
