(* ===== verification/Scenario.thy ===== *)
theory Scenario
  imports Ledger_Inv Merkle_Agreement
begin

text \<open>
  A concrete run of the program, on which the properties of the ledger are exercised: a
  runtime that derives the addresses of one owner and one authority, an issuer whose tree
  has two leaves, and a transaction that creates the identity, registers the issuer and
  claims an attestation.
\<close>

section \<open>The environment\<close>

definition demo_find :: "u8 list list \<Rightarrow> address \<times> u8" where
  "demo_find seeds =
     (if length seeds = 3 then arr_of (seeds ! 2)
      else if hd seeds = IDENTITY_SEED then arr_fill 1 else arr_fill 2, 255)"

definition demo_rt :: runtime where
  "demo_rt =
     \<lparr>rt_find_pda = demo_find,
      rt_create_pda = (\<lambda>seeds bump. if bump = 255 then Some (fst (demo_find seeds)) else None),
      rt_hashv = trunc_hashv,
      rt_hash = (\<lambda>m. trunc_hashv [m]),
      rt_instructions_id = arr_fill 9,
      rt_system_id = arr_fill 0\<rparr>"

definition demo_tx :: tx_env where
  "demo_tx = \<lparr>tx_clock = Some 1000, tx_load_ix = (\<lambda>i. None), tx_can_pay = (\<lambda>a n. True)\<rparr>"

definition meta :: "u8 \<Rightarrow> bool \<Rightarrow> account_meta" where
  "meta k signs = \<lparr>am_key = arr_fill k, am_signer = signs, am_writable = True\<rparr>"

lemma demo_rt_simps [simp]:
  "rt_find_pda demo_rt = demo_find"
  "rt_create_pda demo_rt seeds bump = (if bump = 255 then Some (fst (demo_find seeds)) else None)"
  "rt_hashv demo_rt = trunc_hashv"
  "rt_hash demo_rt m = trunc_hashv [m]"
  "rt_instructions_id demo_rt = arr_fill 9"
  "rt_system_id demo_rt = arr_fill 0"
  by (simp_all add: demo_rt_def)

lemma demo_tx_simps [simp]:
  "tx_clock demo_tx = Some 1000" "tx_load_ix demo_tx i = None" "tx_can_pay demo_tx a n"
  by (simp_all add: demo_tx_def)

lemma meta_simps [simp]:
  "am_key (meta k signs) = arr_fill k" "am_signer (meta k signs) = signs" "am_writable (meta k signs)"
  by (simp_all add: meta_def)

lemma demo_find_simps [simp]:
  "demo_find (identity_seeds owner) = (arr_fill 1, 255)"
  "demo_find (issuer_seeds authority) = (arr_fill 2, 255)"
  "demo_find (nullifier_seeds i h) = (h, 255)"
  by (simp_all add: demo_find_def identity_seeds_def issuer_seeds_def nullifier_seeds_def
      IDENTITY_SEED_def ISSUER_SEED_def)

section \<open>The run\<close>

definition demo_create :: instr where
  "demo_create = CreateIdentity (meta 1 False) (meta 10 True) (meta 0 False)"

definition demo_register :: instr where
  "demo_register = RegisterIssuer (meta 2 False) (meta 11 True) (meta 0 False) (arr_fill 5) (arr_fill 3)"

definition demo_claim :: "u8 \<Rightarrow> instr" where
  "demo_claim n = ClaimAttestation (meta 1 False) (meta 2 False) (meta n False) (meta 10 True)
     (meta 0 False) (arr_fill 3) [arr_fill 4] 0 (arr_fill n)"

definition demo_id0 :: identity where "demo_id0 = create_identity (arr_fill 10) 255"
definition demo_iss0 :: issuer where
  "demo_iss0 = register_issuer (arr_fill 11) (arr_fill 5) (arr_fill 3) 255"

definition demo_L2 :: ledger where
  "demo_L2 = [arr_fill 1 \<mapsto> AIdentity demo_id0, arr_fill 2 \<mapsto> AIssuer demo_iss0]"

definition demo_id1 :: identity where
  "demo_id1 = demo_id0
     \<lparr>id_attestations := arr_set (id_attestations demo_id0) 0
        \<lparr>at_issuer = arr_fill 2, at_schema_id = arr_fill 5, at_claimed_ts = 1000, at_is_active = True\<rparr>,
      id_attestation_count := 1\<rparr>"

definition demo_iss1 :: issuer where "demo_iss1 = demo_iss0\<lparr>iss_attestation_count := 1\<rparr>"

definition demo_nul :: nullifier where
  "demo_nul = \<lparr>nul_issuer = arr_fill 2, nul_hash = arr_fill 7, nul_bump = 255\<rparr>"

definition demo_L3 :: ledger where
  "demo_L3 = demo_L2(arr_fill 7 \<mapsto> ANullifier demo_nul, arr_fill 1 \<mapsto> AIdentity demo_id1,
     arr_fill 2 \<mapsto> AIssuer demo_iss1)"

lemma demo_free_slots [simp]:
  "free_attestation_slot demo_id0 = Some 0" "free_passkey_slot demo_id0 = Some 0"
  by (simp_all add: free_attestation_slot_def free_passkey_slot_def demo_id0_def
      create_identity_def arr_position_def attestation_default_def passkey_default_def numeral_eq_Suc)

lemma demo_id_fields [simp]:
  "id_owner demo_id0 = arr_fill 10" "id_bump demo_id0 = 255"
  "id_attestation_count demo_id0 = 0" "id_passkey_count demo_id0 = 0"
  "id_owner demo_id1 = arr_fill 10" "id_bump demo_id1 = 255"
  "id_attestation_count demo_id1 = 1"
  by (simp_all add: demo_id0_def demo_id1_def create_identity_def)

lemma demo_iss_fields [simp]:
  "iss_merkle_root demo_iss0 = arr_fill 3" "iss_attestation_count demo_iss0 = 0"
  "iss_schema_id demo_iss0 = arr_fill 5" "iss_authority demo_iss0 = arr_fill 11"
  "iss_bump demo_iss0 = 255"
  "iss_merkle_root demo_iss1 = arr_fill 3" "iss_attestation_count demo_iss1 = 1"
  "iss_schema_id demo_iss1 = arr_fill 5" "iss_authority demo_iss1 = arr_fill 11"
  "iss_bump demo_iss1 = 255"
  by (simp_all add: demo_iss0_def demo_iss1_def register_issuer_def)

lemma demo_accounts [simp]:
  "demo_L2 (arr_fill 1) = Some (AIdentity demo_id0)"
  "demo_L2 (arr_fill 2) = Some (AIssuer demo_iss0)"
  "demo_L3 (arr_fill 1) = Some (AIdentity demo_id1)"
  "demo_L3 (arr_fill 2) = Some (AIssuer demo_iss1)"
  "demo_L3 (arr_fill 7) = Some (ANullifier demo_nul)"
  "n \<noteq> 1 \<Longrightarrow> n \<noteq> 2 \<Longrightarrow> demo_L2 (arr_fill n) = None"
  by (simp_all add: demo_L2_def demo_L3_def)

lemma demo_create_exec:
  "exec demo_rt demo_tx Map.empty demo_create =
     Inr ([arr_fill 1 \<mapsto> AIdentity demo_id0], IdentityCreated (arr_fill 1) (arr_fill 10))"
  by (simp add: demo_create_def demo_id0_def ctx_create_identity_iff [THEN iffD2])

lemma demo_register_exec:
  "exec demo_rt demo_tx [arr_fill 1 \<mapsto> AIdentity demo_id0] demo_register =
     Inr (demo_L2, IssuerRegistered (arr_fill 2) (arr_fill 11))"
  by (simp add: demo_register_def demo_L2_def demo_iss0_def ctx_register_issuer_iff [THEN iffD2])

lemma demo_claim_handler:
  "claim_attestation demo_rt demo_tx demo_id0 demo_iss0 (arr_fill 2) 255 (arr_fill 3) [arr_fill 4] 0
     (arr_fill 7) = Inr (demo_nul, demo_id1, demo_iss1)"
  by (simp add: claim_attestation_iff MAX_MERKLE_DEPTH_def demo_nul_def demo_id1_def demo_iss1_def
      checked_add_def)

lemma demo_claim_exec:
  "exec demo_rt demo_tx demo_L2 (demo_claim 7) =
     Inr (demo_L3, AttestationClaimed (arr_fill 1) (arr_fill 2) (arr_fill 5))"
proof -
  have "ctx_claim_attestation demo_rt demo_tx demo_L2 (meta 1 False) (meta 2 False) (meta 7 False)
      (meta 10 True) (meta 0 False) (arr_fill 7) = Inr (demo_id0, demo_iss0, 255)"
    by (simp add: ctx_claim_attestation_iff)
  then show ?thesis
    by (simp add: demo_claim_def demo_claim_handler demo_L3_def)
qed

lemma demo_steps:
  "reachable demo_rt demo_L2" "reachable demo_rt demo_L3" "ledger_step demo_rt demo_L2 demo_L3"
proof -
  show step: "ledger_step demo_rt demo_L2 demo_L3"
    using demo_claim_exec by (rule executed)
  have "ledger_step demo_rt Map.empty [arr_fill 1 \<mapsto> AIdentity demo_id0]"
    using demo_create_exec by (rule executed)
  moreover have "ledger_step demo_rt [arr_fill 1 \<mapsto> AIdentity demo_id0] demo_L2"
    using demo_register_exec by (rule executed)
  ultimately have "ledger_steps demo_rt Map.empty demo_L2"
    by (blast intro: ledger_steps.intros)
  with step show "reachable demo_rt demo_L2" "reachable demo_rt demo_L3"
    by (auto simp: reachable_def intro: ledger_steps.step)
qed

end
