(* ===== verification/Onchain_Safety.thy ===== *)
theory Onchain_Safety
  imports Scenario
begin

text \<open>
  The safety properties of the on-chain program: what holds of every ledger that
  instructions can reach, what can never be undone or repeated, and who can change what.
\<close>

section \<open>Instructions as steps\<close>

lemma claim_exec_iff:
  "exec rt tx L (ClaimAttestation mi ms mn mo my leaf path bits h) = Inr (L', ev) \<longleftrightarrow>
     (\<exists>d s bump nul d' s'.
       ctx_claim_attestation rt tx L mi ms mn mo my h = Inr (d, s, bump) \<and>
       claim_attestation rt tx d s (am_key ms) bump leaf path bits h = Inr (nul, d', s') \<and>
       L' = L(am_key mn \<mapsto> ANullifier nul, am_key mi \<mapsto> AIdentity d', am_key ms \<mapsto> AIssuer s') \<and>
       ev = AttestationClaimed (am_key mi) (am_key ms) (iss_schema_id s))"
  by (auto simp: res_simps)

text \<open>An \<open>init\<close> fails wherever the derived address is taken.\<close>

lemma init_pda_taken:
  assumes "L (fst (rt_find_pda rt seeds)) \<noteq> None"
  shows "init_pda rt tx L m seeds payer space \<noteq> Inr bump"
  using assms by (auto simp: init_pda_iff)

lemma result_fails: "(\<And>y. r \<noteq> Inr y) \<Longrightarrow> \<exists>e. r = Inl e"
  by (cases r) auto

text \<open>A taken address stays taken.\<close>

lemma steps_taken: "ledger_steps rt L L' \<Longrightarrow> L a \<noteq> None \<Longrightarrow> L' a \<noteq> None"
  using steps_same by fastforce

text \<open>The accounts an instruction names.\<close>

fun instr_accounts :: "instr \<Rightarrow> account_meta list" where
  "instr_accounts (CreateIdentity m1 m2 m3) = [m1, m2, m3]"
| "instr_accounts (AddPasskey m1 m2 _ _) = [m1, m2]"
| "instr_accounts (VerifyPasskey m1 m2 m3 _) = [m1, m2, m3]"
| "instr_accounts (RegisterIssuer m1 m2 m3 _ _) = [m1, m2, m3]"
| "instr_accounts (UpdateRoot m1 m2 _) = [m1, m2]"
| "instr_accounts (ClaimAttestation m1 m2 m3 m4 m5 _ _ _ _) = [m1, m2, m3, m4, m5]"

definition signed_by :: "instr \<Rightarrow> address \<Rightarrow> bool" where
  "signed_by ins k \<longleftrightarrow> (\<exists>m \<in> set (instr_accounts ins). am_key m = k \<and> am_signer m)"

section \<open>Properties\<close>

text \<open>
  C2 Every reachable ledger is in order: an identity lies at the address derived from its
  owner and its two counters are the numbers of live entries of its tables; an issuer lies
  at the address derived from its authority; a nullifier lies at the address derived from
  its issuer, which exists, and its hash; every live attestation names an existing issuer
  and that issuer's schema.
\<close>

theorem reachable_invariant:
  assumes "reachable rt L" and "L a = Some acc"
  shows "(case acc of
      AIdentity d \<Rightarrow>
        rt_find_pda rt (identity_seeds (id_owner d)) = (a, id_bump d) \<and>
        unat (id_passkey_count d) = arr_count pk_is_active (id_passkeys d) \<and>
        unat (id_attestation_count d) = arr_count at_is_active (id_attestations d) \<and>
        (\<forall>t \<in> set (arr_list (id_attestations d)). at_is_active t \<longrightarrow>
          (\<exists>s. L (at_issuer t) = Some (AIssuer s) \<and> iss_schema_id s = at_schema_id t))
    | AIssuer s \<Rightarrow> rt_find_pda rt (issuer_seeds (iss_authority s)) = (a, iss_bump s)
    | ANullifier n \<Rightarrow>
        rt_find_pda rt (nullifier_seeds (nul_issuer n) (nul_hash n)) = (a, nul_bump n) \<and>
        (\<exists>s. L (nul_issuer n) = Some (AIssuer s)))"
  using ledger_okD [OF reachable_ok [OF assms(1)] assms(2)]
  by (cases acc) (simp_all add: identity_wf_def names_issuer_def)

theorem reachable_invariant_witness:
  "rt_find_pda demo_rt (identity_seeds (arr_fill 10)) = (arr_fill 1, 255) \<and>
   arr_count at_is_active (id_attestations demo_id1) = 1"
  using reachable_invariant [OF demo_steps(2), of "arr_fill 1"] by simp

text \<open>
  C3 Conservation: in every reachable ledger the counter of an issuer is the number of
  nullifiers burnt at it, and also the number of live attestations that name it over all
  identities.
\<close>

theorem issuer_count_conserved:
  assumes "reachable rt L" and "L i = Some (AIssuer s)"
  shows "unat (iss_attestation_count s) =
      card {a. \<exists>n. L a = Some (ANullifier n) \<and> nul_issuer n = i} \<and>
    unat (iss_attestation_count s) =
      (\<Sum>a \<in> dom L. case the (L a) of
         AIdentity d \<Rightarrow> arr_count (\<lambda>t. at_is_active t \<and> at_issuer t = i) (id_attestations d)
       | _ \<Rightarrow> 0)"
proof -
  have ok: "ledger_ok rt L" using assms(1) by (rule reachable_ok)
  then have fin: "finite (dom L)" by (simp add: ledger_ok_def)
  have "attested_by i acc = (case acc of
         AIdentity d \<Rightarrow> arr_count (\<lambda>t. at_is_active t \<and> at_issuer t = i) (id_attestations d)
       | _ \<Rightarrow> 0)" for acc
    by (cases acc) simp_all
  then show ?thesis
    using ledger_okD [OF ok assms(2)] total_spent_card [OF fin, of i]
    by (simp add: ledger_total_def)
qed

theorem issuer_count_conserved_witness:
  "card {a. \<exists>n. demo_L3 a = Some (ANullifier n) \<and> nul_issuer n = arr_fill 2} = 1"
  using issuer_count_conserved [OF demo_steps(2), of "arr_fill 2" demo_iss1] by simp

text \<open>
  C1 Replay protection: once a claim for an issuer and a nullifier has succeeded, every
  later claim for that issuer and nullifier fails, in any later ledger, whoever signs and
  whatever accounts, leaf and proof it brings.
\<close>

theorem nullifier_never_replayed:
  assumes "exec rt tx L (ClaimAttestation mi ms mn mo my leaf path bits h) = Inr (L1, ev)"
    and "ledger_steps rt L1 L2" and "am_key ms' = am_key ms"
  shows "\<exists>e. exec rt tx' L2 (ClaimAttestation mi' ms' mn' mo' my' leaf' path' bits' h) = Inl e"
proof -
  from assms(1) obtain bump where pda: "rt_find_pda rt (nullifier_seeds (am_key ms) h) = (am_key mn, bump)"
    and "L1 (am_key mn) \<noteq> None"
    by (auto simp: claim_exec_iff ctx_claim_attestation_iff simp del: exec.simps)
  then have "L2 (fst (rt_find_pda rt (nullifier_seeds (am_key ms') h))) \<noteq> None"
    using steps_taken [OF assms(2)] assms(3) by auto
  then have "ctx_claim_attestation rt tx' L2 mi' ms' mn' mo' my' h \<noteq> Inr c" for c
    by (cases c) (auto simp: ctx_claim_attestation_iff)
  then show ?thesis
    by (intro result_fails) (auto simp: res_simps)
qed

theorem nullifier_never_replayed_witness:
  "\<exists>e. exec demo_rt demo_tx demo_L3 (demo_claim 7) = Inl e"
  using nullifier_never_replayed [OF demo_claim_exec [unfolded demo_claim_def] ledger_steps.refl,
    of "meta 2 False" demo_tx "meta 1 False" "meta 7 False" "meta 10 True" "meta 0 False" "arr_fill 3"
    "[arr_fill 4]" 0]
  unfolding demo_claim_def by blast

text \<open>
  C4 Authorisation: an instruction that changes an existing identity carries the signature
  of its owner, or is a claim by it; one that changes an existing issuer's root is signed
  by its authority; a nullifier never changes. Identities keep their owner and issuers
  their authority and schema for ever.
\<close>

theorem changes_are_authorised:
  assumes "exec rt tx L ins = Inr (L', ev)" and "L a = Some acc"
  shows "case acc of
      AIdentity d \<Rightarrow> (\<exists>d'. L' a = Some (AIdentity d') \<and> id_owner d' = id_owner d \<and>
        (d' \<noteq> d \<longrightarrow> signed_by ins (id_owner d)))
    | AIssuer s \<Rightarrow> (\<exists>s'. L' a = Some (AIssuer s') \<and> iss_authority s' = iss_authority s \<and>
        iss_schema_id s' = iss_schema_id s \<and>
        (iss_merkle_root s' \<noteq> iss_merkle_root s \<longrightarrow> signed_by ins (iss_authority s)) \<and>
        unat (iss_attestation_count s) \<le> unat (iss_attestation_count s'))
    | ANullifier n \<Rightarrow> L' a = Some (ANullifier n)"
  using assms
proof (cases ins)
  case (ClaimAttestation mi ms mn mo my leaf path bits h)
  with assms(1) obtain d s bump nul d' s' where
    ctx: "ctx_claim_attestation rt tx L mi ms mn mo my h = Inr (d, s, bump)"
    and cl: "claim_attestation rt tx d s (am_key ms) bump leaf path bits h = Inr (nul, d', s')"
    and L': "L' = L(am_key mn \<mapsto> ANullifier nul, am_key mi \<mapsto> AIdentity d', am_key ms \<mapsto> AIssuer s')"
    by (auto simp: claim_exec_iff simp del: exec.simps)
  have signed: "signed_by ins (id_owner d)"
    using ctx ClaimAttestation by (auto simp: ctx_claim_attestation_iff signed_by_def)
  have "unat (iss_attestation_count s') = unat (iss_attestation_count s) + 1"
    using cl checked_add_unat [of "iss_attestation_count s" 1] by (auto simp: claim_attestation_iff)
  with claim_attestation_same [OF cl] cl ctx assms(2) signed show ?thesis
    by (cases acc) (auto simp: L' ctx_claim_attestation_iff claim_attestation_iff)
qed (auto simp: res_simps ctx_iffs add_passkey_iff update_root_def signed_by_def split: account.splits)

theorem changes_are_authorised_witness:
  "signed_by (demo_claim 7) (arr_fill 10)"
proof -
  have "demo_id1 \<noteq> demo_id0"
    by (metis demo_id_fields(3,7) zero_neq_one)
  then show ?thesis
    using changes_are_authorised [OF demo_claim_exec, of "arr_fill 1" "AIdentity demo_id0"] by simp
qed

text \<open>
  C17 Typing of the ledger: whatever is executed, an account that exists keeps existing, keeps its
  kind, and keeps the fields its address is derived from: an identity its owner, an issuer
  its authority, its schema too, and a nullifier everything.
\<close>

theorem accounts_keep_type:
  assumes "ledger_steps rt L L'" and "L a = Some acc"
  shows "case acc of
      AIdentity d \<Rightarrow> (\<exists>d'. L' a = Some (AIdentity d') \<and> id_owner d' = id_owner d \<and> id_bump d' = id_bump d)
    | AIssuer s \<Rightarrow> (\<exists>s'. L' a = Some (AIssuer s') \<and> iss_authority s' = iss_authority s \<and>
        iss_schema_id s' = iss_schema_id s \<and> iss_bump s' = iss_bump s)
    | ANullifier n \<Rightarrow> L' a = Some (ANullifier n)"
proof -
  obtain acc' where "L' a = Some acc'" "same_account acc acc'" using steps_same [OF assms] by blast
  then show ?thesis by (cases acc; cases acc') auto
qed

theorem accounts_keep_type_witness:
  "\<exists>d'. demo_L3 (arr_fill 1) = Some (AIdentity d') \<and> id_owner d' = arr_fill 10"
  using accounts_keep_type [OF ledger_steps.step [OF ledger_steps.refl demo_steps(3)], of "arr_fill 1" "AIdentity demo_id0"] by auto

text \<open>
  Uniqueness: after an owner has created its identity, or an authority registered its
  issuer, every later attempt to create it again fails, in any later ledger.
\<close>

lemma accounts_created_once:
  assumes "exec rt tx L ins = Inr (L1, ev)" and "ledger_steps rt L1 L2"
  shows "case ins of
      CreateIdentity mi mo my \<Rightarrow> (\<forall>tx' mi' mo' my'. am_key mo' = am_key mo \<longrightarrow>
        (\<exists>e. exec rt tx' L2 (CreateIdentity mi' mo' my') = Inl e))
    | RegisterIssuer ms ma my _ _ \<Rightarrow> (\<forall>tx' ms' ma' my' schema' root'. am_key ma' = am_key ma \<longrightarrow>
        (\<exists>e. exec rt tx' L2 (RegisterIssuer ms' ma' my' schema' root') = Inl e))
    | _ \<Rightarrow> True"
proof -
  have "\<exists>e. exec rt tx' L2 (CreateIdentity mi' mo' my') = Inl e"
    if "ins = CreateIdentity mi mo my" and "am_key mo' = am_key mo" for mi mo my tx' mi' mo' my'
  proof -
    have "L2 (fst (rt_find_pda rt (identity_seeds (am_key mo')))) \<noteq> None"
      using assms that by (intro steps_taken [OF assms(2)]) (auto simp: res_simps ctx_create_identity_iff)
    then show ?thesis
      by (intro result_fails) (auto simp: res_simps ctx_create_identity_iff)
  qed
  moreover have "\<exists>e. exec rt tx' L2 (RegisterIssuer ms' ma' my' schema' root') = Inl e"
    if "ins = RegisterIssuer ms ma my schema root" and "am_key ma' = am_key ma"
    for ms ma my schema root tx' ms' ma' my' schema' root'
  proof -
    have "L2 (fst (rt_find_pda rt (issuer_seeds (am_key ma')))) \<noteq> None"
      using assms that by (intro steps_taken [OF assms(2)]) (auto simp: res_simps ctx_register_issuer_iff)
    then show ?thesis
      by (intro result_fails) (auto simp: res_simps ctx_register_issuer_iff)
  qed
  ultimately show ?thesis by (simp del: exec.simps split: instr.split)
qed

end
