(* ===== verification/Slots.thy ===== *)
theory Slots
  imports Ledger_Inv
begin

text \<open>
  The two tables of an identity as lists: in every reachable ledger the live slots come
  first, so a table with its counter stands for the list of its live entries, and adding an
  entry appends to that list.
\<close>

section \<open>Packed tables\<close>

text \<open>The first \<open>n\<close> entries are live and no others.\<close>

definition packed :: "('a \<Rightarrow> bool) \<Rightarrow> 'a list \<Rightarrow> nat \<Rightarrow> bool" where
  "packed live xs n \<longleftrightarrow> n \<le> length xs \<and> (\<forall>i < length xs. live (xs ! i) \<longleftrightarrow> i < n)"

lemma packed_filter: "packed live xs n \<Longrightarrow> filter live xs = take n xs"
proof -
  assume *: "packed live xs n"
  then have "filter live (take n xs) = take n xs" "filter live (drop n xs) = []"
    by (auto simp: packed_def filter_id_conv filter_empty_conv in_set_conv_nth)
  then show ?thesis by (metis append_take_drop_id append_Nil2 filter_append)
qed

lemma packed_count: "packed live xs n \<Longrightarrow> length (filter live xs) = n"
  by (simp add: packed_filter) (simp add: packed_def)

text \<open>The first free slot is the one behind the live entries.\<close>

lemma packed_position:
  "packed live xs n \<Longrightarrow> position (\<lambda>x. \<not> live x) xs = (if n < length xs then Some n else None)"
  by (auto simp: position_Some position_None in_set_conv_nth packed_def)

lemma packed_update: "packed live xs n \<Longrightarrow> n < length xs \<Longrightarrow> live v \<Longrightarrow> packed live (xs[n := v]) (Suc n)"
  by (auto simp: packed_def nth_list_update)

lemma packed_append:
  "packed live xs n \<Longrightarrow> n < length xs \<Longrightarrow> live v \<Longrightarrow> filter live (xs[n := v]) = filter live xs @ [v]"
  by (simp add: packed_filter packed_filter [OF packed_update] take_Suc_conv_app_nth)

lemma packed_fill: "\<not> live v \<Longrightarrow> packed live (replicate k v) 0"
  by (simp add: packed_def)

section \<open>The tables of reachable identities\<close>

definition tables_packed :: "identity \<Rightarrow> bool" where
  "tables_packed d \<longleftrightarrow>
     packed pk_is_active (arr_list (id_passkeys d)) (unat (id_passkey_count d)) \<and>
     packed at_is_active (arr_list (id_attestations d)) (unat (id_attestation_count d))"

lemma tables_packed_wf: "tables_packed d \<Longrightarrow> identity_wf d"
  by (auto simp: tables_packed_def identity_wf_def arr_count_def dest!: packed_count)

lemma packed_slots:
  assumes "tables_packed d"
  shows "free_passkey_slot d =
      (if unat (id_passkey_count d) < 4 then Some (unat (id_passkey_count d)) else None)"
    and "free_attestation_slot d =
      (if unat (id_attestation_count d) < 4 then Some (unat (id_attestation_count d)) else None)"
  using assms by (auto simp: tables_packed_def free_passkey_slot_def free_attestation_slot_def
      arr_position_def dest!: packed_position)

lemma add_passkey_packed:
  assumes "tables_packed d" and "add_passkey tx d pubkey label = Inr (d', slot)"
  shows "tables_packed d'"
  using assms passkey_count_add [OF tables_packed_wf [OF assms(1)]]
  by (auto simp: add_passkey_iff packed_slots tables_packed_def packed_update split: if_splits)

lemma claim_attestation_packed:
  assumes "tables_packed d" and "claim_attestation rt tx d s i bump leaf path bits h = Inr (nul, d', s')"
  shows "tables_packed d'"
  using assms attestation_count_add [OF tables_packed_wf [OF assms(1)]]
  by (auto simp: claim_attestation_iff packed_slots tables_packed_def packed_update split: if_splits)

lemma create_identity_packed: "tables_packed (create_identity owner bump)"
  by (simp add: tables_packed_def create_identity_def packed_fill passkey_default_def attestation_default_def)

definition ledger_packed :: "ledger \<Rightarrow> bool" where
  "ledger_packed L \<longleftrightarrow> (\<forall>a d. L a = Some (AIdentity d) \<longrightarrow> tables_packed d)"

lemma effect_packed: "effect rt L L' \<Longrightarrow> ledger_packed L \<Longrightarrow> ledger_packed L'"
  by (induction rule: effect.induct)
    (auto simp: ledger_packed_def create_identity_packed intro: add_passkey_packed claim_attestation_packed)

lemma steps_packed: "ledger_steps rt L L' \<Longrightarrow> ledger_packed L \<Longrightarrow> ledger_packed L'"
  by (induction rule: ledger_steps.induct) (auto dest: ledger_step_effect effect_packed)

lemma reachable_packed: "reachable rt L \<Longrightarrow> L a = Some (AIdentity d) \<Longrightarrow> tables_packed d"
  using steps_packed [of rt Map.empty L] by (auto simp: reachable_def ledger_packed_def)

end
