(* ===== verification/Onchain_Behaviour.thy ===== *)
theory Onchain_Behaviour
  imports Onchain_Safety Slots
begin

text \<open>
  What each instruction of the on-chain program does on every branch: the result of adding
  and verifying a passkey and of claiming an attestation as one equation each, the errors
  that can and cannot occur, and how a claim relates to the trees that the off-chain
  service builds.
\<close>

section \<open>Reference specifications\<close>

text \<open>
  The instruction that decides a passkey verification: of the instructions that can be
  loaded one after the other from index 0, at most 16, the first of the secp256r1 program.
\<close>

definition secp_data :: "tx_env \<Rightarrow> nat list \<Rightarrow> u8 list option" where
  "secp_data tx is =
     map_option snd (List.find (\<lambda>(p, d). p = SECP256R1_PROGRAM_ID)
       (map the (takeWhile (\<lambda>x. x \<noteq> None) (map (tx_load_ix tx) is))))"

lemma scan_instructions_eq:
  "scan_instructions rt tx cred is =
     (case secp_data tx is of
        None \<Rightarrow> Inr None
      | Some data \<Rightarrow> (case extract_embedded data of
          None \<Rightarrow> Inl (Custom MalformedPrecompile)
        | Some vc \<Rightarrow>
            if vc_pubkey vc = arr_list (pk_pubkey cred) then Inr (Some (rt_hash rt (vc_message vc)))
            else Inl (Custom PasskeyMismatch)))"
  by (induction "is") (auto simp: secp_data_def split: option.splits)

text \<open>The credential that an index selects.\<close>

definition live_passkey :: "identity \<Rightarrow> u8 \<Rightarrow> passkey option" where
  "live_passkey d index =
     (if unat index < MAX_PASSKEYS \<and> pk_is_active (arr_list (id_passkeys d) ! unat index)
      then Some (arr_list (id_passkeys d) ! unat index) else None)"

section \<open>Claims\<close>

text \<open>The result of a claim, in the order in which its errors take precedence.\<close>

lemma claim_attestation_eq:
  assumes "identity_wf d"
  shows "claim_attestation rt tx d s issuer_key bump leaf path bits h =
    (if MAX_MERKLE_DEPTH < length path then Inl (Custom ProofTooDeep)
     else if fold_path (oc_hash_pair (rt_hashv rt)) (bit bits) 0 leaf path \<noteq> iss_merkle_root s
       then Inl (Custom InvalidMerkleProof)
     else case tx_clock tx of
       None \<Rightarrow> Inl (Anchor SysvarError)
     | Some now \<Rightarrow> (case free_attestation_slot d of
         None \<Rightarrow> Inl (Custom AttestationTableFull)
       | Some slot \<Rightarrow>
           if unat (iss_attestation_count s) = 2 ^ 64 - 1 then Inl (Custom MathOverflow)
           else Inr (\<lparr>nul_issuer = issuer_key, nul_hash = h, nul_bump = bump\<rparr>,
             d\<lparr>id_attestations := arr_set (id_attestations d) slot
                 \<lparr>at_issuer = issuer_key, at_schema_id = iss_schema_id s, at_claimed_ts = now,
                  at_is_active = True\<rparr>,
               id_attestation_count := id_attestation_count d + 1\<rparr>,
             s\<lparr>iss_attestation_count := iss_attestation_count s + 1\<rparr>)))"
proof -
  have "unat (iss_attestation_count s) < 2 ^ 64"
    using unsigned_less [of "iss_attestation_count s"] by simp
  then have "checked_add (iss_attestation_count s) 1 =
      (if unat (iss_attestation_count s) = 2 ^ 64 - 1 then None else Some (iss_attestation_count s + 1))"
    by (auto simp: checked_add_def)
  then show ?thesis
    using attestation_count_add [OF assms]
    by (cases "length path \<le> MAX_MERKLE_DEPTH")
      (auto simp: claim_attestation_def Let_def oc_verify_short split: option.splits)
qed

text \<open>On packed tables: the slot is the counter.\<close>

lemma claim_attestation_packed_eq:
  assumes "tables_packed d"
  shows "claim_attestation rt tx d s issuer_key bump leaf path bits h =
    (if 20 < length path then Inl (Custom ProofTooDeep)
     else if fold_path (oc_hash_pair (rt_hashv rt)) (bit bits) 0 leaf path \<noteq> iss_merkle_root s
       then Inl (Custom InvalidMerkleProof)
     else case tx_clock tx of
       None \<Rightarrow> Inl (Anchor SysvarError)
     | Some now \<Rightarrow>
         if unat (id_attestation_count d) = 4 then Inl (Custom AttestationTableFull)
         else if unat (iss_attestation_count s) = 2 ^ 64 - 1 then Inl (Custom MathOverflow)
         else Inr (\<lparr>nul_issuer = issuer_key, nul_hash = h, nul_bump = bump\<rparr>,
           d\<lparr>id_attestations := arr_set (id_attestations d) (unat (id_attestation_count d))
               \<lparr>at_issuer = issuer_key, at_schema_id = iss_schema_id s, at_claimed_ts = now,
                at_is_active = True\<rparr>,
             id_attestation_count := id_attestation_count d + 1\<rparr>,
           s\<lparr>iss_attestation_count := iss_attestation_count s + 1\<rparr>))"
proof -
  have "unat (id_attestation_count d) \<le> 4" using assms by (auto simp: tables_packed_def packed_def)
  then show ?thesis
    by (simp add: claim_attestation_eq [OF tables_packed_wf [OF assms]] packed_slots [OF assms]
        MAX_MERKLE_DEPTH_def split: option.split)
qed

lemma claim_attestation_packed_iff:
  assumes "tables_packed d"
  shows "claim_attestation rt tx d s issuer_key bump leaf path bits h = Inr (nul, d', s') \<longleftrightarrow>
    (\<exists>now. length path \<le> 20 \<and>
      fold_path (oc_hash_pair (rt_hashv rt)) (bit bits) 0 leaf path = iss_merkle_root s \<and>
      tx_clock tx = Some now \<and> unat (id_attestation_count d) < 4 \<and>
      unat (iss_attestation_count s) < 2 ^ 64 - 1 \<and>
      nul = \<lparr>nul_issuer = issuer_key, nul_hash = h, nul_bump = bump\<rparr> \<and>
      d' = d\<lparr>id_attestations := arr_set (id_attestations d) (unat (id_attestation_count d))
          \<lparr>at_issuer = issuer_key, at_schema_id = iss_schema_id s, at_claimed_ts = now,
           at_is_active = True\<rparr>,
        id_attestation_count := id_attestation_count d + 1\<rparr> \<and>
      s' = s\<lparr>iss_attestation_count := iss_attestation_count s + 1\<rparr>)"
proof -
  have "unat (id_attestation_count d) \<le> 4" using assms by (auto simp: tables_packed_def packed_def)
  moreover have "unat (iss_attestation_count s) < 2 ^ LENGTH(64)" by (rule unsigned_less)
  ultimately have "unat (id_attestation_count d) = 4 \<longleftrightarrow> \<not> unat (id_attestation_count d) < 4"
    "unat (iss_attestation_count s) = 2 ^ 64 - 1 \<longleftrightarrow> \<not> unat (iss_attestation_count s) < 2 ^ 64 - 1"
    by auto
  then show ?thesis
    unfolding claim_attestation_packed_eq [OF assms] by (auto split: option.split)
qed

lemma ctx_claim_never_panics:
  "ctx_claim_attestation rt tx L mi ms mn mo my h \<noteq> Inl ProgramPanicked"
  by (auto simp: ctx_claim_attestation_def load_identity_def load_issuer_def load_signer_def load_system_def
      init_pda_def check_seeds_def check_mut_def res_simps split: option.splits account.splits prod.splits)

text \<open>The direction bits of one level up.\<close>

lemma fold_path_up:
  "fold_path hp (bit (bits :: u64)) 0 leaf (s # ss) =
     fold_path hp (bit (drop_bit 1 bits)) 0 (if bit bits 0 then hp s leaf else hp leaf s) ss"
proof -
  have "fold_path hp (bit bits) 1 n ss = fold_path hp (bit (drop_bit 1 bits)) 0 n ss" for n
    by (intro fold_path_cong) (simp add: bit_drop_bit_eq)
  then show ?thesis by simp
qed

section \<open>Properties\<close>

text \<open>
  Adding a passkey to a well-formed identity: with all four slots in use it fails with
  \<open>PassKeyTableFull\<close>; otherwise it fills the first free slot with the given key, label
  and time, changes no other entry, adds one to the counter, and the identity stays
  well-formed. The counter cannot overflow.
\<close>

lemma add_passkey_spec:
  assumes "identity_wf d" and "tx_clock tx = Some now"
  shows "if unat (id_passkey_count d) = MAX_PASSKEYS
    then add_passkey tx d pubkey label = Inl (Custom PassKeyTableFull)
    else \<exists>slot d'. add_passkey tx d pubkey label = Inr (d', slot) \<and>
      slot < MAX_PASSKEYS \<and> \<not> pk_is_active (arr_list (id_passkeys d) ! slot) \<and>
      (\<forall>j < slot. pk_is_active (arr_list (id_passkeys d) ! j)) \<and>
      arr_list (id_passkeys d') = (arr_list (id_passkeys d))[slot :=
        \<lparr>pk_pubkey = pubkey, pk_label = label, pk_added_ts = now, pk_is_active = True\<rparr>] \<and>
      unat (id_passkey_count d') = unat (id_passkey_count d) + 1 \<and>
      d' = d\<lparr>id_passkeys := id_passkeys d', id_passkey_count := id_passkey_count d'\<rparr> \<and> identity_wf d'"
proof (cases "free_passkey_slot d")
  case None
  with assms show ?thesis
    using free_passkey_slot_None_iff [of d] by (simp add: add_passkey_def)
next
  case (Some slot)
  define d' where "d' = d\<lparr>id_passkeys := arr_set (id_passkeys d) slot
      \<lparr>pk_pubkey = pubkey, pk_label = label, pk_added_ts = now, pk_is_active = True\<rparr>,
    id_passkey_count := id_passkey_count d + 1\<rparr>"
  have add: "add_passkey tx d pubkey label = Inr (d', slot)"
    using assms Some passkey_count_add [of d] by (simp add: add_passkey_iff d'_def)
  have "unat (id_passkey_count d) \<noteq> MAX_PASSKEYS"
    using Some free_passkey_slot_None_iff [OF assms(1)] by auto
  moreover have "\<not> pk_is_active (arr_list (id_passkeys d) ! slot) \<and>
      (\<forall>j < slot. pk_is_active (arr_list (id_passkeys d) ! j))"
    using Some by (auto simp: free_passkey_slot_def arr_position_def position_Some)
  ultimately show ?thesis
    using add add_passkey_wf(1) [OF assms(1) add] free_passkey_slot_lt [OF Some]
      passkey_count_add [OF assms(1)]
    by (auto simp: d'_def)
qed

text \<open>
  Verifying a passkey, on every branch: an index without a live credential is
  \<open>PassKeyNotFound\<close>; without a secp256r1 instruction among those scanned the result is
  \<open>MissingPasskeyVerification\<close>; the first such instruction decides: it is malformed,
  names another key, or the verification succeeds with the hash of its message.
\<close>

lemma verify_passkey_spec:
  "verify_passkey rt tx d index =
     (case live_passkey d index of
        None \<Rightarrow> Inl (Custom PassKeyNotFound)
      | Some cred \<Rightarrow> (case secp_data tx [0..<16] of
          None \<Rightarrow> Inl (Custom MissingPasskeyVerification)
        | Some data \<Rightarrow> (case extract_embedded data of
            None \<Rightarrow> Inl (Custom MalformedPrecompile)
          | Some vc \<Rightarrow>
              if vc_pubkey vc = arr_list (pk_pubkey cred) then Inr (rt_hash rt (vc_message vc))
              else Inl (Custom PasskeyMismatch))))"
  by (auto simp: verify_passkey_def live_passkey_def arr_get_def elem_get_def scan_instructions_eq
      MAX_TX_INSTRUCTIONS_def MAX_PASSKEYS_def simp del: upt_rec_numeral split: option.splits)

text \<open>
  C14 A transaction passes \<open>verify_passkey\<close> exactly when the owner signs and some
  instruction among its first 16, with only other programs' instructions before it, is a
  secp256r1 instruction that embeds the key of the live credential; the ledger is
  unchanged and the event carries the hash of the embedded message.
\<close>

theorem verify_passkey_exec:
  "exec rt tx L (VerifyPasskey mi mo mx index) = Inr (L', ev) \<longleftrightarrow>
     (\<exists>d cred i data vc.
       L (am_key mi) = Some (AIdentity d) \<and> am_signer mo \<and> id_owner d = am_key mo \<and>
       rt_create_pda rt (identity_seeds (am_key mo)) (id_bump d) = Some (am_key mi) \<and>
       am_key mx = rt_instructions_id rt \<and>
       arr_get (id_passkeys d) (unat index) = Some cred \<and> pk_is_active cred \<and>
       i < 16 \<and> first_secp tx i data \<and> extract_embedded data = Some vc \<and>
       vc_pubkey vc = arr_list (pk_pubkey cred) \<and>
       L' = L \<and> ev = PassKeyVerified (am_key mi) index (rt_hash rt (vc_message vc)))"
  by (auto simp: res_simps ctx_verify_passkey_iff verify_passkey_iff MAX_TX_INSTRUCTIONS_def; blast)

text \<open>
  C13 A claim on a reachable ledger. It succeeds exactly when the accounts are in order (the
  owner signs, all addresses are derived as declared, the nullifier is new and can be
  paid for), the proof has at most 20 nodes and leads to the issuer's root, the clock can be
  read, the identity has fewer than four attestations and the issuer's counter is not at
  its end; then it writes the nullifier, the attestation in the slot behind the live ones, and
  both counters, and nothing else. It fails with the first of these conditions that does not
  hold, the accounts first, and it never panics.
\<close>

theorem claim_attestation_spec:
  assumes "reachable rt L"
  shows "(exec rt tx L (ClaimAttestation mi ms mn mo my leaf path bits h) = Inr (L', ev) \<longleftrightarrow>
      (\<exists>d s bump now. L (am_key mi) = Some (AIdentity d) \<and> L (am_key ms) = Some (AIssuer s) \<and>
        am_signer mo \<and> am_writable mo \<and> am_writable mi \<and> am_writable ms \<and> am_writable mn \<and>
        am_key my = rt_system_id rt \<and> id_owner d = am_key mo \<and>
        rt_create_pda rt (identity_seeds (am_key mo)) (id_bump d) = Some (am_key mi) \<and>
        rt_find_pda rt (nullifier_seeds (am_key ms) h) = (am_key mn, bump) \<and>
        L (am_key mn) = None \<and> tx_can_pay tx (am_key mo) nullifier_space \<and>
        length path \<le> 20 \<and>
        fold_path (oc_hash_pair (rt_hashv rt)) (bit bits) 0 leaf path = iss_merkle_root s \<and>
        tx_clock tx = Some now \<and> unat (id_attestation_count d) < 4 \<and>
        unat (iss_attestation_count s) < 2 ^ 64 - 1 \<and>
        L' = L(am_key mn \<mapsto> ANullifier \<lparr>nul_issuer = am_key ms, nul_hash = h, nul_bump = bump\<rparr>,
          am_key mi \<mapsto> AIdentity (d\<lparr>
            id_attestations := arr_set (id_attestations d) (unat (id_attestation_count d))
              \<lparr>at_issuer = am_key ms, at_schema_id = iss_schema_id s, at_claimed_ts = now,
               at_is_active = True\<rparr>,
            id_attestation_count := id_attestation_count d + 1\<rparr>),
          am_key ms \<mapsto> AIssuer (s\<lparr>iss_attestation_count := iss_attestation_count s + 1\<rparr>)) \<and>
        ev = AttestationClaimed (am_key mi) (am_key ms) (iss_schema_id s))) \<and>
    (\<forall>e. exec rt tx L (ClaimAttestation mi ms mn mo my leaf path bits h) = Inl e \<longleftrightarrow>
      (case ctx_claim_attestation rt tx L mi ms mn mo my h of
         Inl e' \<Rightarrow> e = e'
       | Inr (d, s, bump) \<Rightarrow>
           if 20 < length path then e = Custom ProofTooDeep
           else if fold_path (oc_hash_pair (rt_hashv rt)) (bit bits) 0 leaf path \<noteq> iss_merkle_root s
             then e = Custom InvalidMerkleProof
           else if tx_clock tx = None then e = Anchor SysvarError
           else if unat (id_attestation_count d) = 4 then e = Custom AttestationTableFull
           else unat (iss_attestation_count s) = 2 ^ 64 - 1 \<and> e = Custom MathOverflow)) \<and>
    exec rt tx L (ClaimAttestation mi ms mn mo my leaf path bits h) \<noteq> Inl ProgramPanicked"
proof (intro conjI)
  let ?ctx = "ctx_claim_attestation rt tx L mi ms mn mo my h"
  let ?exec = "exec rt tx L (ClaimAttestation mi ms mn mo my leaf path bits h)"
  note packed = reachable_packed [OF assms]
  have ctx: "tables_packed d" if "?ctx = Inr (d, s, bump)" for d s bump
    using that packed by (auto simp: ctx_claim_attestation_iff)
  show "?exec \<noteq> Inl ProgramPanicked"
    using ctx_claim_never_panics claim_attestation_never_panics by (auto simp: res_simps)
  show "\<forall>e. ?exec = Inl e \<longleftrightarrow>
      (case ?ctx of
         Inl e' \<Rightarrow> e = e'
       | Inr (d, s, bump) \<Rightarrow>
           if 20 < length path then e = Custom ProofTooDeep
           else if fold_path (oc_hash_pair (rt_hashv rt)) (bit bits) 0 leaf path \<noteq> iss_merkle_root s
             then e = Custom InvalidMerkleProof
           else if tx_clock tx = None then e = Anchor SysvarError
           else if unat (id_attestation_count d) = 4 then e = Custom AttestationTableFull
           else unat (iss_attestation_count s) = 2 ^ 64 - 1 \<and> e = Custom MathOverflow)"
  proof (cases ?ctx)
    case (Inr p)
    then obtain d s bump where p: "?ctx = Inr (d, s, bump)" by (cases p) auto
    show ?thesis
      by (auto simp: p claim_attestation_packed_eq [OF ctx [OF p]] split: option.split)
  qed auto
qed (simp add: res_simps ctx_claim_attestation_iff claim_attestation_packed_iff reachable_packed [OF assms]
    cong: conj_cong, blast)

theorem claim_attestation_spec_witness:
  "exec demo_rt demo_tx demo_L2 (demo_claim 7) =
     Inr (demo_L3, AttestationClaimed (arr_fill 1) (arr_fill 2) (arr_fill 5)) \<and>
   exec demo_rt (demo_tx\<lparr>tx_clock := None\<rparr>) demo_L2 (demo_claim 7) = Inl (Anchor SysvarError) \<and>
   exec demo_rt demo_tx demo_L2 (ClaimAttestation (meta 1 False) (meta 2 False) (meta 7 False) (meta 10 True)
     (meta 0 False) (arr_fill 8) [arr_fill 4] 0 (arr_fill 7)) = Inl (Custom InvalidMerkleProof)"
proof (intro conjI)
  note spec = claim_attestation_spec [OF demo_steps(1)]
  have ctx: "ctx_claim_attestation demo_rt tx demo_L2 (meta 1 False) (meta 2 False) (meta 7 False) (meta 10 True)
      (meta 0 False) (arr_fill 7) = Inr (demo_id0, demo_iss0, 255)" if "tx = demo_tx \<or> tx = demo_tx\<lparr>tx_clock := None\<rparr>" for tx
    using that by (auto simp: ctx_claim_attestation_iff demo_tx_def)
  show "exec demo_rt demo_tx demo_L2 (demo_claim 7) =
      Inr (demo_L3, AttestationClaimed (arr_fill 1) (arr_fill 2) (arr_fill 5))"
    unfolding demo_claim_def
    by (subst conjunct1 [OF spec])
      (simp add: demo_L3_def demo_nul_def demo_id1_def demo_iss1_def)
  show "exec demo_rt (demo_tx\<lparr>tx_clock := None\<rparr>) demo_L2 (demo_claim 7) = Inl (Anchor SysvarError)"
    unfolding demo_claim_def by (subst conjunct1 [OF conjunct2 [OF spec], rule_format]) (simp add: ctx)
  show "exec demo_rt demo_tx demo_L2 (ClaimAttestation (meta 1 False) (meta 2 False) (meta 7 False) (meta 10 True)
      (meta 0 False) (arr_fill 8) [arr_fill 4] 0 (arr_fill 7)) = Inl (Custom InvalidMerkleProof)"
    by (subst conjunct1 [OF conjunct2 [OF spec], rule_format]) (simp add: ctx)
qed

end
