(* ===== verification/Claim_Trees.thy ===== *)
theory Claim_Trees
  imports Onchain_Behaviour
begin

text \<open>
  The path from the off-chain service to the chain: an issuer builds a tree and publishes
  its root, a member takes the proof that the service mints and claims on-chain. This
  theory shows when such a claim succeeds, what a successful claim proves, and what it
  does not.
\<close>

section \<open>A claim in an orderly ledger\<close>

text \<open>
  Everything a claim needs except a valid proof: the accounts are there, named in the
  right places and writable, the owner signs, the nullifier is fresh, the payer can pay,
  there is room for the attestation, and the clock can be read.
\<close>

definition ready_to_claim ::
    "runtime \<Rightarrow> tx_env \<Rightarrow> ledger \<Rightarrow> account_meta \<Rightarrow> account_meta \<Rightarrow> account_meta \<Rightarrow> account_meta \<Rightarrow>
     account_meta \<Rightarrow> 32 bytes \<Rightarrow> identity \<Rightarrow> issuer \<Rightarrow> bool" where
  "ready_to_claim rt tx L mi ms mn mo my h d s \<longleftrightarrow>
     L (am_key mi) = Some (AIdentity d) \<and> L (am_key ms) = Some (AIssuer s) \<and>
     L (am_key mn) = None \<and> fst (rt_find_pda rt (nullifier_seeds (am_key ms) h)) = am_key mn \<and>
     am_signer mo \<and> am_key mo = id_owner d \<and> am_key my = rt_system_id rt \<and>
     am_writable mi \<and> am_writable ms \<and> am_writable mn \<and> am_writable mo \<and>
     tx_can_pay tx (am_key mo) nullifier_space \<and> tx_clock tx \<noteq> None \<and>
     unat (id_attestation_count d) < 4 \<and> unat (iss_attestation_count s) < 2 ^ 64 - 1"

text \<open>
  The documented contract of the two address functions: the address and the bump that
  \<open>find_program_address\<close> returns are accepted by \<open>create_program_address\<close>.
\<close>

definition pda_law :: "runtime \<Rightarrow> bool" where
  "pda_law rt \<longleftrightarrow> (\<forall>seeds pda bump.
     rt_find_pda rt seeds = (pda, bump) \<longrightarrow> rt_create_pda rt seeds bump = Some pda)"

lemma ready_ctx:
  assumes "reachable rt L" and "pda_law rt" and "ready_to_claim rt tx L mi ms mn mo my h d s"
  shows "ctx_claim_attestation rt tx L mi ms mn mo my h =
    Inr (d, s, snd (rt_find_pda rt (nullifier_seeds (am_key ms) h)))"
proof -
  have "rt_find_pda rt (identity_seeds (id_owner d)) = (am_key mi, id_bump d)"
    using ledger_okD [OF reachable_ok [OF assms(1)], of "am_key mi" "AIdentity d"] assms(3)
    by (simp add: ready_to_claim_def)
  with assms(2) have "rt_create_pda rt (identity_seeds (id_owner d)) (id_bump d) = Some (am_key mi)"
    by (simp add: pda_law_def)
  with assms(3) show ?thesis
    by (auto simp: ctx_claim_attestation_iff ready_to_claim_def prod_eq_iff)
qed

lemma reachable_identity_wf: "reachable rt L \<Longrightarrow> L a = Some (AIdentity d) \<Longrightarrow> identity_wf d"
  using ledger_okD [OF reachable_ok, of rt L a "AIdentity d"] by simp

text \<open>With everything else in place, the proof alone decides.\<close>

lemma ready_claim:
  assumes "reachable rt L" and "pda_law rt" and ready: "ready_to_claim rt tx L mi ms mn mo my h d s"
    and "length path \<le> 20"
    and "fold_path (oc_hash_pair (rt_hashv rt)) (bit bits) 0 leaf path = iss_merkle_root s"
  obtains d' s' L' where
    "exec rt tx L (ClaimAttestation mi ms mn mo my leaf path bits h) =
       Inr (L', AttestationClaimed (am_key mi) (am_key ms) (iss_schema_id s))"
    and "L' (am_key mi) = Some (AIdentity d')" and "L' (am_key ms) = Some (AIssuer s')"
    and "unat (id_attestation_count d') = unat (id_attestation_count d) + 1"
    and "arr_count (\<lambda>t. at_is_active t \<and> at_issuer t = am_key ms) (id_attestations d') =
      arr_count (\<lambda>t. at_is_active t \<and> at_issuer t = am_key ms) (id_attestations d) + 1"
proof -
  let ?bump = "snd (rt_find_pda rt (nullifier_seeds (am_key ms) h))"
  from ready obtain now where facts: "L (am_key mi) = Some (AIdentity d)"
    "L (am_key ms) = Some (AIssuer s)" "L (am_key mn) = None" "tx_clock tx = Some now"
    "unat (id_attestation_count d) < 4" "unat (iss_attestation_count s) < 2 ^ 64 - 1"
    by (auto simp: ready_to_claim_def)
  have wf: "identity_wf d" using assms(1) facts(1) by (rule reachable_identity_wf)
  with facts obtain slot where slot: "free_attestation_slot d = Some slot"
    using free_attestation_slot_None_iff [OF wf] by (auto simp: MAX_ATTESTATIONS_def)
  then obtain nul d' s' where cl:
      "claim_attestation rt tx d s (am_key ms) ?bump leaf path bits h = Inr (nul, d', s')"
      "id_attestation_count d' = id_attestation_count d + 1"
    using facts assms(4,5) by (simp add: claim_attestation_eq [OF wf] MAX_MERKLE_DEPTH_def)
  let ?L' = "L(am_key mn \<mapsto> ANullifier nul, am_key mi \<mapsto> AIdentity d', am_key ms \<mapsto> AIssuer s')"
  have "exec rt tx L (ClaimAttestation mi ms mn mo my leaf path bits h) =
      Inr (?L', AttestationClaimed (am_key mi) (am_key ms) (iss_schema_id s))"
    using ready_ctx [OF assms(1-3)] cl by simp
  moreover have "?L' (am_key mi) = Some (AIdentity d')" "?L' (am_key ms) = Some (AIssuer s')"
    using facts by auto
  moreover have "unat (id_attestation_count d') = unat (id_attestation_count d) + 1"
    using cl(2) attestation_count_add [OF wf] by simp
  moreover have "arr_count (\<lambda>t. at_is_active t \<and> at_issuer t = am_key ms) (id_attestations d') =
      arr_count (\<lambda>t. at_is_active t \<and> at_issuer t = am_key ms) (id_attestations d) + 1"
    using claim_attestation_wf(2) [OF wf cl(1), of "am_key ms"] by simp
  ultimately show thesis by (rule that)
qed

lemma demo_pda_law: "pda_law demo_rt"
  by (auto simp: pda_law_def demo_find_def)

lemma demo_ready:
  "n \<noteq> 1 \<Longrightarrow> n \<noteq> 2 \<Longrightarrow> ready_to_claim demo_rt demo_tx demo_L2 (meta 1 False) (meta 2 False)
     (meta n False) (meta 10 True) (meta 0 False) (arr_fill n) demo_id0 demo_iss0"
  by (simp add: ready_to_claim_def)

section \<open>Errors\<close>

text \<open>
  The account contexts return framework errors and the two ownership errors only. The
  handlers return what their code names, and their parts never panic.
\<close>

lemma context_errors:
  "ctx_create_identity rt tx L m1 m2 m3 = Inl e \<Longrightarrow> \<exists>a. e = Anchor a"
  "ctx_register_issuer rt tx L m1 m2 m3 = Inl e \<Longrightarrow> \<exists>a. e = Anchor a"
  "ctx_claim_attestation rt tx L m1 m2 m3 m4 m5 h = Inl e \<Longrightarrow> e = Custom NotOwner \<or> (\<exists>a. e = Anchor a)"
  "ctx_verify_passkey rt L m1 m2 m3 = Inl e \<Longrightarrow> e = Custom NotOwner \<or> (\<exists>a. e = Anchor a)"
  "ctx_manage_identity rt L m1 m2 = Inl e \<Longrightarrow> e = Custom NotOwner \<or> (\<exists>a. e = Anchor a)"
  "ctx_admin_issuer rt L m1 m2 = Inl e \<Longrightarrow> e = Custom NotIssuerAuthority \<or> (\<exists>a. e = Anchor a)"
  unfolding ctx_create_identity_def ctx_register_issuer_def ctx_claim_attestation_def
    ctx_verify_passkey_def ctx_manage_identity_def ctx_admin_issuer_def
    load_signer_def load_system_def load_identity_def load_issuer_def check_mut_def check_seeds_def
    init_pda_def
  by (auto simp: res_simps split: option.splits account.splits prod.splits)

lemma handler_errors:
  "add_passkey tx d pubkey label = Inl e \<Longrightarrow>
     e \<in> {Anchor SysvarError, Custom PassKeyTableFull, Custom MathOverflow}"
  "verify_passkey rt tx d index = Inl e \<Longrightarrow>
     e \<in> Custom ` {PassKeyNotFound, MalformedPrecompile, PasskeyMismatch, MissingPasskeyVerification}"
  "claim_attestation rt tx d s k bump leaf path bits h = Inl e \<Longrightarrow>
     e \<in> insert (Anchor SysvarError)
       (Custom ` {ProofTooDeep, InvalidMerkleProof, AttestationTableFull, MathOverflow})"
proof -
  show "add_passkey tx d pubkey label = Inl e \<Longrightarrow>
      e \<in> {Anchor SysvarError, Custom PassKeyTableFull, Custom MathOverflow}"
    by (auto simp: add_passkey_def Let_def res_simps)
  show "verify_passkey rt tx d index = Inl e \<Longrightarrow>
      e \<in> Custom ` {PassKeyNotFound, MalformedPrecompile, PasskeyMismatch, MissingPasskeyVerification}"
    by (auto simp: verify_passkey_def scan_instructions_eq res_simps split: option.splits if_splits)
  show "claim_attestation rt tx d s k bump leaf path bits h = Inl e \<Longrightarrow>
      e \<in> insert (Anchor SysvarError)
        (Custom ` {ProofTooDeep, InvalidMerkleProof, AttestationTableFull, MathOverflow})"
    using claim_attestation_never_panics [of rt tx d s k bump leaf path bits h]
    by (cases "length path \<le> MAX_MERKLE_DEPTH")
      (auto simp: claim_attestation_def Let_def oc_verify_short res_simps)
qed

lemma exec_errors: "exec rt tx L ins \<noteq> Inl (Custom NullifierAlreadyUsed) \<and> exec rt tx L ins \<noteq> Inl ProgramPanicked"
  by (cases ins) (auto simp: res_simps dest!: context_errors handler_errors)

section \<open>Properties\<close>

text \<open>
  C5 A proof minted off-chain is accepted on-chain: in every reachable ledger, when
  everything else a claim needs is in place and the issuer's root is the root of the tree
  over at most \<open>2 ^ 20\<close> leaves, the proof that \<open>proof\<close> returns for a leaf makes the claim
  succeed and adds one live attestation by that issuer to the identity.
\<close>

theorem honest_claim_succeeds:
  assumes "reachable rt L" and "pda_law rt" and "hash_agree (rt_hashv rt) K"
    and "ready_to_claim rt tx L mi ms mn mo my h d s"
    and "i < length leaves" and "length leaves \<le> 2 ^ 20"
    and "tree_root (from_leaves K leaves) = Some (iss_merkle_root s)"
    and "tree_proof m (from_leaves K leaves) i = Some (Some (path, bits))"
  shows "\<exists>L' d'. exec rt tx L (ClaimAttestation mi ms mn mo my (leaves ! i) path bits h) =
      Inr (L', AttestationClaimed (am_key mi) (am_key ms) (iss_schema_id s)) \<and>
    L' (am_key mi) = Some (AIdentity d') \<and>
    arr_count (\<lambda>t. at_is_active t \<and> at_issuer t = am_key ms) (id_attestations d') =
      arr_count (\<lambda>t. at_is_active t \<and> at_issuer t = am_key ms) (id_attestations d) + 1"
proof -
  have ne: "leaves \<noteq> []" "0 < length leaves" and le: "length leaves \<le> 2 ^ 64"
    using assms(5,6) by auto
  have path: "path = auth_path (hash_pair K) leaves i" "bits = of_nat i"
    using tree_proof_from_leaves [OF assms(5) le, of m K] assms(8) by auto
  have "length path \<le> 20"
    using ne assms(6) by (simp add: path length_auth_path tree_depth_le_iff)
  moreover have "fold_path (oc_hash_pair (rt_hashv rt)) (bit bits) 0 (leaves ! i) path =
      iss_merkle_root s"
    using assms(7) ne fold_auth_path_bits [OF assms(5) le, of "hash_pair K"]
    by (simp add: path hash_agreeD [OF assms(3)] tree_root_from_leaves)
  ultimately show ?thesis
    by (rule ready_claim [OF assms(1,2,4)]) blast
qed

theorem honest_claim_succeeds_witness:
  "\<exists>L'. exec demo_rt demo_tx demo_L2 (ClaimAttestation (meta 1 False) (meta 2 False) (meta 7 False)
     (meta 10 True) (meta 0 False) (arr_fill 3) [arr_fill 4] 0 (arr_fill 7)) =
     Inr (L', AttestationClaimed (arr_fill 1) (arr_fill 2) (arr_fill 5))"
proof -
  have "tree_proof Checked (from_leaves trunc_keccak [arr_fill 3, arr_fill 4]) 0 =
      Some (Some ([arr_fill 4], 0))"
    by (simp add: tree_proof_from_leaves auth_path.simps)
  from honest_claim_succeeds [OF demo_steps(1) demo_pda_law _ demo_ready [of 7] _ _ _ this] show ?thesis
    by (auto simp: hash_agree_trunc tree_root_from_leaves mroot.simps simp del: exec.simps)
qed

text \<open>
  C30 The bound on that: for a tree of more than \<open>2 ^ 20\<close> leaves the on-chain program
  refuses every proof that the service mints with \<open>ProofTooDeep\<close>, and for smaller trees
  none.
\<close>

theorem deep_trees_refused:
  assumes "i < length leaves" and "length leaves \<le> 2 ^ 64"
    and "tree_proof m (from_leaves K leaves) i = Some (Some (path, bits))"
  shows "claim_attestation rt tx d s issuer_key bump (leaves ! i) path bits h = Inl (Custom ProofTooDeep)
    \<longleftrightarrow> 2 ^ 20 < length leaves"
proof -
  have "path = auth_path (hash_pair K) leaves i"
    using tree_proof_from_leaves [OF assms(1,2), of m K] assms(3) by auto
  moreover have "0 < length leaves" using assms(1) by linarith
  ultimately have "length path \<le> MAX_MERKLE_DEPTH \<longleftrightarrow> length leaves \<le> 2 ^ 20"
    by (simp add: length_auth_path tree_depth_le_iff MAX_MERKLE_DEPTH_def)
  then show ?thesis
    by (cases "length path \<le> MAX_MERKLE_DEPTH")
      (auto simp: claim_attestation_def Let_def oc_verify_short res_simps)
qed

theorem deep_trees_refused_witness:
  "claim_attestation demo_rt demo_tx demo_id0 demo_iss0 (arr_fill 2) 255 (arr_fill 3)
     (auth_path (hash_pair trunc_keccak) (replicate 1048577 (arr_fill 3)) 5) 5 (arr_fill 7) =
   Inl (Custom ProofTooDeep)"
proof -
  have "5 < length (replicate 1048577 (arr_fill 3 :: 32 bytes))"
    "length (replicate 1048577 (arr_fill 3 :: 32 bytes)) \<le> 2 ^ 64" by simp_all
  from deep_trees_refused [OF this, of Checked trunc_keccak] tree_proof_from_leaves [OF this, of Checked trunc_keccak]
  show ?thesis by simp
qed

text \<open>
  C6 What a successful claim proves: when the issuer's root is the root of a tree and the
  proof has the depth of that tree, the claimed leaf is one of its leaves, or the claim
  makes the program hash a pair that collides with a pair hashed to build the tree.
\<close>

theorem claim_proves_membership:
  assumes "hash_agree (rt_hashv rt) K" and "leaves \<noteq> []"
    and "exec rt tx L (ClaimAttestation mi ms mn mo my leaf path bits h) = Inr (L', ev)"
    and "L (am_key ms) = Some (AIssuer s)"
    and "tree_root (from_leaves K leaves) = Some (iss_merkle_root s)"
    and "length path = tree_depth (length leaves)"
  shows "leaf \<in> set leaves \<or>
    (\<exists>p q. p \<in> set (path_pairs (oc_hash_pair (rt_hashv rt)) (bit bits) 0 leaf path) \<and>
      q \<in> set (tree_pairs (hash_pair K) leaves) \<and> colliding (hash_pair K) p q)"
proof -
  have "fold_path (hash_pair K) (bit bits) 0 leaf path = iss_merkle_root s"
    using assms(3,4)
    by (auto simp: claim_exec_iff ctx_claim_attestation_iff claim_attestation_iff
        hash_agreeD [OF assms(1)] simp del: exec.simps)
  then show ?thesis
    using assms(2,5,6) unfolding hash_agreeD [OF assms(1)]
    by (intro fold_path_sound) (simp_all add: tree_root_from_leaves)
qed

theorem claim_proves_membership_witness:
  "arr_fill 3 \<in> set [arr_fill 3, arr_fill 4 :: 32 bytes] \<or>
    (\<exists>p q. p \<in> set (path_pairs (oc_hash_pair (rt_hashv demo_rt)) (bit (0 :: u64)) 0 (arr_fill 3) [arr_fill 4]) \<and>
      q \<in> set (tree_pairs (hash_pair trunc_keccak) [arr_fill 3, arr_fill 4]) \<and>
      colliding (hash_pair trunc_keccak) p q)"
  by (rule claim_proves_membership [OF _ _ demo_claim_exec [unfolded demo_claim_def],
        where K = trunc_keccak and s = demo_iss0])
    (simp_all add: hash_agree_trunc tree_root_from_leaves mroot.simps tree_depth.simps)

text \<open>
  C24 Leaves and inner nodes are not told apart: whenever a claim with a leaf, a first
  sibling and further siblings succeeds, the claim of the inner node above the leaf, with
  the further siblings alone, succeeds with the same ledger and event.
\<close>

theorem inner_nodes_are_claimable:
  assumes "exec rt tx L (ClaimAttestation mi ms mn mo my leaf (sib # sibs) bits h) = Inr (L', ev)"
  shows "exec rt tx L (ClaimAttestation mi ms mn mo my
      (if bit bits 0 then oc_hash_pair (rt_hashv rt) sib leaf else oc_hash_pair (rt_hashv rt) leaf sib)
      sibs (drop_bit 1 bits) h) = Inr (L', ev)"
proof -
  have "claim_attestation rt tx d s k bump leaf (sib # sibs) bits h = Inr r \<Longrightarrow>
      claim_attestation rt tx d s k bump (if bit bits 0 then oc_hash_pair (rt_hashv rt) sib leaf
        else oc_hash_pair (rt_hashv rt) leaf sib) sibs (drop_bit 1 bits) h = Inr r" for d s k bump r
    by (cases r) (simp only: claim_attestation_iff fold_path_up, simp)
  with assms show ?thesis
    by (auto simp: claim_exec_iff simp del: exec.simps)
qed

theorem inner_nodes_are_claimable_witness:
  "exec demo_rt demo_tx demo_L2 (ClaimAttestation (meta 1 False) (meta 2 False) (meta 7 False)
     (meta 10 True) (meta 0 False) (arr_fill 3) [] 0 (arr_fill 7)) =
     Inr (demo_L3, AttestationClaimed (arr_fill 1) (arr_fill 2) (arr_fill 5))"
  using inner_nodes_are_claimable [OF demo_claim_exec [unfolded demo_claim_def]]
  by (simp del: exec.simps)

text \<open>
  C23 In particular the issuer's public root is a valid "leaf" with the empty proof: in a
  reachable ledger every owner of an identity with a free slot can claim it, whoever the
  members of the set are.
\<close>

theorem root_is_claimable_by_anyone:
  assumes "reachable rt L" and "pda_law rt" and "ready_to_claim rt tx L mi ms mn mo my h d s"
  shows "\<exists>L'. exec rt tx L (ClaimAttestation mi ms mn mo my (iss_merkle_root s) [] bits h) =
    Inr (L', AttestationClaimed (am_key mi) (am_key ms) (iss_schema_id s))"
  by (rule ready_claim [OF assms, of "[]" bits "iss_merkle_root s"]) auto

theorem root_is_claimable_by_anyone_witness:
  "\<exists>L'. exec demo_rt demo_tx demo_L2 (ClaimAttestation (meta 1 False) (meta 2 False) (meta 8 False)
     (meta 10 True) (meta 0 False) (arr_fill 3) [] 0 (arr_fill 8)) =
     Inr (L', AttestationClaimed (arr_fill 1) (arr_fill 2) (arr_fill 5))"
  using root_is_claimable_by_anyone [OF demo_steps(1) demo_pda_law demo_ready [of 8], of 0]
  by (simp del: exec.simps)

text \<open>
  C25 The nullifier is chosen by the claimer and not tied to the leaf: after a successful
  claim the same leaf and proof succeed again, in any later ledger, for any owner that is
  ready to claim with another nullifier while the issuer's root stands.
\<close>

theorem same_leaf_claims_again:
  assumes "reachable rt L" and "pda_law rt"
    and "exec rt tx L (ClaimAttestation mi ms mn mo my leaf path bits h) = Inr (L1, ev)"
    and "ledger_steps rt L1 L2"
    and "ready_to_claim rt tx' L2 mi' ms mn' mo' my' h' d' s'"
    and "L (am_key ms) = Some (AIssuer s)" and "iss_merkle_root s' = iss_merkle_root s"
  shows "\<exists>L3. exec rt tx' L2 (ClaimAttestation mi' ms mn' mo' my' leaf path bits h') =
    Inr (L3, AttestationClaimed (am_key mi') (am_key ms) (iss_schema_id s'))"
proof -
  have "ledger_steps rt L L1" using assms(3) by (blast intro: ledger_steps.intros executed)
  then have reach: "reachable rt L2"
    using assms(1,4) unfolding reachable_def by (blast intro: ledger_steps_trans)
  have "length path \<le> 20" "fold_path (oc_hash_pair (rt_hashv rt)) (bit bits) 0 leaf path = iss_merkle_root s'"
    using assms(3,6,7)
    by (auto simp: claim_exec_iff ctx_claim_attestation_iff claim_attestation_iff
        MAX_MERKLE_DEPTH_def simp del: exec.simps)
  then show ?thesis
    by (rule ready_claim [OF reach assms(2,5)]) blast
qed

theorem same_leaf_claims_again_witness:
  "\<exists>L'. exec demo_rt demo_tx demo_L3 (demo_claim 8) =
     Inr (L', AttestationClaimed (arr_fill 1) (arr_fill 2) (arr_fill 5))"
proof -
  have "ready_to_claim demo_rt demo_tx demo_L3 (meta 1 False) (meta 2 False) (meta 8 False)
      (meta 10 True) (meta 0 False) (arr_fill 8) demo_id1 demo_iss1"
    by (simp add: ready_to_claim_def demo_L3_def)
  from same_leaf_claims_again [OF demo_steps(1) demo_pda_law demo_claim_exec [unfolded demo_claim_def]
      ledger_steps.refl this]
  show ?thesis by (simp add: demo_claim_def del: exec.simps)
qed

text \<open>
  Errors that cannot happen: no instruction returns \<open>NullifierAlreadyUsed\<close>, because the
  framework refuses the used nullifier account first; none panics; and in a reachable
  ledger adding a passkey never returns \<open>MathOverflow\<close>.
\<close>

lemma impossible_errors:
  "exec rt tx L ins \<noteq> Inl (Custom NullifierAlreadyUsed) \<and> exec rt tx L ins \<noteq> Inl ProgramPanicked \<and>
   (reachable rt L \<longrightarrow> exec rt tx L (AddPasskey mi mo pubkey label) \<noteq> Inl (Custom MathOverflow))"
proof -
  have "exec rt tx L (AddPasskey mi mo pubkey label) \<noteq> Inl (Custom MathOverflow)" if "reachable rt L"
    using reachable_identity_wf [OF that] passkey_count_add context_errors(5) [of rt L mi mo]
    by (fastforce simp: res_simps add_passkey_def Let_def ctx_manage_identity_iff)
  with exec_errors [of rt tx L ins] show ?thesis by auto
qed

end
