(* ===== verification/Registry.thy ===== *)
theory Registry
  imports Onchain_Behaviour
begin

text \<open>
  The contract of an identity: two lists of at most four entries, without slots, counters
  or flags. The handlers of \<open>programs/passkeyauth/src/lib.rs\<close> implement it on every identity
  of a reachable ledger.
\<close>

section \<open>The specification\<close>

record credentials =
  cr_passkeys :: "passkey list"
  cr_attestations :: "attestation list"

text \<open>A passkey is appended, and known by its position from then on.\<close>

definition credentials_add ::
    "tx_env \<Rightarrow> 33 bytes \<Rightarrow> 16 bytes \<Rightarrow> credentials \<Rightarrow> program_error + (credentials \<times> nat)" where
  "credentials_add tx pubkey label c =
     (case tx_clock tx of
        None \<Rightarrow> Inl (Anchor SysvarError)
      | Some now \<Rightarrow>
          if length (cr_passkeys c) = 4 then Inl (Custom PassKeyTableFull)
          else Inr (c\<lparr>cr_passkeys := cr_passkeys c @
              [\<lparr>pk_pubkey = pubkey, pk_label = label, pk_added_ts = now, pk_is_active = True\<rparr>]\<rparr>,
            length (cr_passkeys c)))"

text \<open>The passkey at a position is verified by the first secp256r1 instruction.\<close>

definition credentials_verify ::
    "runtime \<Rightarrow> tx_env \<Rightarrow> u8 \<Rightarrow> credentials \<Rightarrow> program_error + 32 bytes" where
  "credentials_verify rt tx index c =
     (if length (cr_passkeys c) \<le> unat index then Inl (Custom PassKeyNotFound)
      else case secp_data tx [0..<16] of
          None \<Rightarrow> Inl (Custom MissingPasskeyVerification)
        | Some data \<Rightarrow> (case extract_embedded data of
            None \<Rightarrow> Inl (Custom MalformedPrecompile)
          | Some vc \<Rightarrow>
              if vc_pubkey vc = arr_list (pk_pubkey (cr_passkeys c ! unat index))
              then Inr (rt_hash rt (vc_message vc)) else Inl (Custom PasskeyMismatch)))"

text \<open>
  A claim appends an attestation and counts at the issuer; \<open>ok\<close> tells whether the path leads
  from the leaf to the issuer's root.
\<close>

definition credentials_claim ::
    "tx_env \<Rightarrow> nat \<Rightarrow> bool \<Rightarrow> address \<Rightarrow> 32 bytes \<Rightarrow> credentials \<Rightarrow> nat \<Rightarrow>
     program_error + (credentials \<times> nat)" where
  "credentials_claim tx depth ok issuer_key schema c claims =
     (if 20 < depth then Inl (Custom ProofTooDeep)
      else if \<not> ok then Inl (Custom InvalidMerkleProof)
      else case tx_clock tx of
          None \<Rightarrow> Inl (Anchor SysvarError)
        | Some now \<Rightarrow>
            if length (cr_attestations c) = 4 then Inl (Custom AttestationTableFull)
            else if claims = 2 ^ 64 - 1 then Inl (Custom MathOverflow)
            else Inr (c\<lparr>cr_attestations := cr_attestations c @
                [\<lparr>at_issuer = issuer_key, at_schema_id = schema, at_claimed_ts = now,
                  at_is_active = True\<rparr>]\<rparr>, claims + 1))"

section \<open>The abstraction\<close>

definition credentials_of :: "identity \<Rightarrow> credentials" where
  "credentials_of d =
     \<lparr>cr_passkeys = filter pk_is_active (arr_list (id_passkeys d)),
      cr_attestations = filter at_is_active (arr_list (id_attestations d))\<rparr>"

lemma credentials_lengths:
  assumes "tables_packed d"
  shows "length (cr_passkeys (credentials_of d)) = unat (id_passkey_count d)"
    and "length (cr_attestations (credentials_of d)) = unat (id_attestation_count d)"
  using assms by (auto simp: tables_packed_def credentials_of_def dest!: packed_count)

lemma packed_le:
  "tables_packed d \<Longrightarrow> unat (id_passkey_count d) \<le> 4 \<and> unat (id_attestation_count d) \<le> 4"
  by (auto simp: tables_packed_def packed_def)

lemma add_refines:
  assumes "tables_packed d"
  shows "map_sum id (\<lambda>(d', slot). (credentials_of d', slot)) (add_passkey tx d pubkey label) =
    credentials_add tx pubkey label (credentials_of d)"
proof (cases "unat (id_passkey_count d) = 4")
  case True
  then show ?thesis
    by (simp add: credentials_add_def credentials_lengths [OF assms] add_passkey_def packed_slots [OF assms]
        split: option.split)
next
  case False
  then have lt: "unat (id_passkey_count d) < 4" using packed_le [OF assms] by simp
  have "filter pk_is_active ((arr_list (id_passkeys d))[unat (id_passkey_count d) := v]) =
      filter pk_is_active (arr_list (id_passkeys d)) @ [v]" if "pk_is_active v" for v
    using assms lt that by (intro packed_append) (simp_all add: tables_packed_def)
  then show ?thesis
    using lt passkey_count_add [OF tables_packed_wf [OF assms]] credentials_lengths(1) [OF assms]
    by (auto simp: credentials_add_def add_passkey_def packed_slots [OF assms]
        credentials_of_def split: option.split)
qed

lemma verify_refines:
  assumes "tables_packed d"
  shows "verify_passkey rt tx d index = credentials_verify rt tx index (credentials_of d)"
proof -
  have packed: "packed pk_is_active (arr_list (id_passkeys d)) (unat (id_passkey_count d))"
    using assms by (simp add: tables_packed_def)
  then have "live_passkey d index = (if unat index < unat (id_passkey_count d)
      then Some (cr_passkeys (credentials_of d) ! unat index) else None)"
    using packed_filter [OF packed]
    by (auto simp: live_passkey_def credentials_of_def MAX_PASSKEYS_def packed_def)
  then show ?thesis
    by (simp add: verify_passkey_spec credentials_verify_def credentials_lengths [OF assms] not_less
        split: option.split)
qed

lemma claim_refines:
  assumes "tables_packed d"
  shows "map_sum id (\<lambda>(nul, d', s'). (credentials_of d', unat (iss_attestation_count s')))
      (claim_attestation rt tx d s i bump leaf path bits h) =
    credentials_claim tx (length path)
      (fold_path (oc_hash_pair (rt_hashv rt)) (bit bits) 0 leaf path = iss_merkle_root s)
      i (iss_schema_id s) (credentials_of d) (unat (iss_attestation_count s))"
proof (cases "unat (id_attestation_count d) = 4")
  case True
  then show ?thesis
    by (simp add: credentials_claim_def credentials_lengths [OF assms] packed_slots [OF assms]
        claim_attestation_eq [OF tables_packed_wf [OF assms]] MAX_MERKLE_DEPTH_def split: option.split)
next
  case False
  then have lt: "unat (id_attestation_count d) < 4" using packed_le [OF assms] by simp
  have "filter at_is_active ((arr_list (id_attestations d))[unat (id_attestation_count d) := v]) =
      filter at_is_active (arr_list (id_attestations d)) @ [v]" if "at_is_active v" for v
    using assms lt that by (intro packed_append) (simp_all add: tables_packed_def)
  moreover have "unat (iss_attestation_count s) < 2 ^ LENGTH(64)" by (rule unsigned_less)
  then have "unat (iss_attestation_count s) \<noteq> 2 ^ 64 - 1 \<Longrightarrow>
      unat (iss_attestation_count s + 1) = unat (iss_attestation_count s) + 1"
    by (simp add: unat_word_ariths)
  ultimately show ?thesis
    using lt credentials_lengths(2) [OF assms]
    by (auto simp: credentials_claim_def packed_slots [OF assms]
        claim_attestation_eq [OF tables_packed_wf [OF assms]] MAX_MERKLE_DEPTH_def credentials_of_def
        split: option.split)
qed

section \<open>Properties\<close>

text \<open>
  C40 Identities are lists: on every identity of a reachable ledger, adding a passkey,
  verifying one and claiming an attestation do what the specification does with the lists
  of its live entries, errors included. So a passkey keeps the index that was reported when
  it was added, new entries come last, and neither the slots nor the counters of the tables
  can be told from outside.
\<close>

theorem identities_refine_lists:
  assumes "reachable rt L" and "L a = Some (AIdentity d)"
  shows "map_sum id (\<lambda>(d', slot). (credentials_of d', slot)) (add_passkey tx d pubkey label) =
      credentials_add tx pubkey label (credentials_of d) \<and>
    verify_passkey rt tx d index = credentials_verify rt tx index (credentials_of d) \<and>
    map_sum id (\<lambda>(nul, d', s'). (credentials_of d', unat (iss_attestation_count s')))
        (claim_attestation rt tx d s i bump leaf path bits h) =
      credentials_claim tx (length path)
        (fold_path (oc_hash_pair (rt_hashv rt)) (bit bits) 0 leaf path = iss_merkle_root s)
        i (iss_schema_id s) (credentials_of d) (unat (iss_attestation_count s))"
  using reachable_packed [OF assms] by (intro conjI add_refines verify_refines claim_refines)

theorem identities_refine_lists_witness:
  "verify_passkey demo_rt demo_tx demo_id1 0 = Inl (Custom PassKeyNotFound) \<and>
   map_sum id (\<lambda>(d', slot). (credentials_of d', slot))
     (add_passkey demo_tx demo_id1 (arr_fill 2) (arr_fill 65)) =
   Inr (\<lparr>cr_passkeys = [\<lparr>pk_pubkey = arr_fill 2, pk_label = arr_fill 65, pk_added_ts = 1000,
       pk_is_active = True\<rparr>],
     cr_attestations = [\<lparr>at_issuer = arr_fill 2, at_schema_id = arr_fill 5, at_claimed_ts = 1000,
       at_is_active = True\<rparr>]\<rparr>, 0)"
proof -
  have demo: "credentials_of demo_id1 = \<lparr>cr_passkeys = [], cr_attestations = [\<lparr>at_issuer = arr_fill 2,
      at_schema_id = arr_fill 5, at_claimed_ts = 1000, at_is_active = True\<rparr>]\<rparr>"
    by (simp add: credentials_of_def demo_id1_def demo_id0_def create_identity_def passkey_default_def
        attestation_default_def numeral_eq_Suc)
  have "demo_L3 (arr_fill 1) = Some (AIdentity demo_id1)" by simp
  from identities_refine_lists [OF demo_steps(2) this, of demo_tx "arr_fill 2" "arr_fill 65" 0] show ?thesis
    by (simp add: demo credentials_verify_def credentials_add_def)
qed

end
