(* ===== verification/Layout.thy ===== *)
theory Layout
  imports Program
begin

text \<open>
  The bytes of an account. The structures of \<open>state.rs\<close> derive their serialisation
  (\<open>AnchorSerialize\<close>, \<open>#[account]\<close>): Borsh writes the fields one after the other in the order
  of declaration, an array as its entries, and Anchor puts the discriminator of the type in
  front. The formats of the primitive types and the discriminators are parameters. The
  derived formats read back what they write, refuse anything else, and fill exactly the
  space that the program reserves; so the model may keep accounts as records.
\<close>

section \<open>Formats\<close>

record 'a wire =
  put :: "'a \<Rightarrow> u8 list"
  get :: "u8 list \<Rightarrow> ('a \<times> u8 list) option"

text \<open>A format of a fixed width, which reads exactly what it writes.\<close>

locale wire_format =
  fixes W :: "'a wire" and width :: nat
  assumes put_width: "length (put W x) = width"
    and get_iff: "get W bs = Some (x, rest) \<longleftrightarrow> bs = put W x @ rest"
begin

lemma get_put [simp]: "get W (put W x @ rest) = Some (x, rest)"
  by (simp add: get_iff)

lemma get_None: "get W bs = None \<longleftrightarrow> (\<nexists>x rest. bs = put W x @ rest)"
  using get_iff by (metis option.exhaust option.distinct(1) prod.exhaust)

lemma put_inj: "put W x = put W y \<Longrightarrow> x = y"
  using get_put [of x "[]"] get_put [of y "[]"] by simp

end

text \<open>Fields one after the other, the fields of a structure, and the entries of an array.\<close>

definition wire_pair :: "'a wire \<Rightarrow> 'b wire \<Rightarrow> ('a \<times> 'b) wire" where
  "wire_pair A B =
     \<lparr>put = (\<lambda>(x, y). put A x @ put B y),
      get = (\<lambda>bs. case get A bs of None \<Rightarrow> None | Some (x, bs) \<Rightarrow>
        map_option (apfst (Pair x)) (get B bs))\<rparr>"

definition wire_as :: "('b \<Rightarrow> 'a) \<Rightarrow> ('a \<Rightarrow> 'b) \<Rightarrow> 'a wire \<Rightarrow> 'b wire" where
  "wire_as parts build A = \<lparr>put = put A \<circ> parts, get = map_option (apfst build) \<circ> get A\<rparr>"

fun get_many :: "'a wire \<Rightarrow> nat \<Rightarrow> u8 list \<Rightarrow> ('a list \<times> u8 list) option" where
  "get_many A 0 bs = Some ([], bs)"
| "get_many A (Suc n) bs = (case get A bs of
     None \<Rightarrow> None
   | Some (x, bs) \<Rightarrow> map_option (apfst (Cons x)) (get_many A n bs))"

definition wire_array :: "'a wire \<Rightarrow> ('a, 'n::len) arr wire" where
  "wire_array A =
     \<lparr>put = (\<lambda>a. concat (map (put A) (arr_list a))),
      get = map_option (apfst arr_of) \<circ> get_many A LENGTH('n)\<rparr>"

lemma wire_pair:
  assumes "wire_format A m" and "wire_format B n"
  shows "wire_format (wire_pair A B) (m + n)"
proof
  fix p :: "'a \<times> 'b"
  show "length (put (wire_pair A B) p) = m + n"
    by (cases p) (simp add: wire_pair_def wire_format.put_width [OF assms(1)] wire_format.put_width [OF assms(2)])
next
  fix bs rest and p :: "'a \<times> 'b"
  obtain x y where p: "p = (x, y)" by fastforce
  have "get (wire_pair A B) bs = Some (p, rest) \<longleftrightarrow>
      (\<exists>bs'. get A bs = Some (x, bs') \<and> get B bs' = Some (y, rest))"
    by (auto simp: wire_pair_def p split: option.splits)
  also have "\<dots> \<longleftrightarrow> bs = put (wire_pair A B) p @ rest"
    by (auto simp: wire_pair_def p wire_format.get_iff [OF assms(1)] wire_format.get_iff [OF assms(2)])
  finally show "get (wire_pair A B) bs = Some (p, rest) \<longleftrightarrow> bs = put (wire_pair A B) p @ rest" .
qed

lemma wire_as:
  assumes "wire_format A n" and "\<And>y. build (parts y) = y" and "\<And>x. parts (build x) = x"
  shows "wire_format (wire_as parts build A) n"
proof
  fix y
  show "length (put (wire_as parts build A) y) = n"
    by (simp add: wire_as_def wire_format.put_width [OF assms(1)])
next
  fix bs y rest
  have "get (wire_as parts build A) bs = Some (y, rest) \<longleftrightarrow> get A bs = Some (parts y, rest)"
    using assms(2,3) by (auto simp: wire_as_def)
  then show "get (wire_as parts build A) bs = Some (y, rest) \<longleftrightarrow> bs = put (wire_as parts build A) y @ rest"
    by (simp add: wire_as_def wire_format.get_iff [OF assms(1)])
qed

context wire_format begin

lemma get_many_iff:
  "get_many W n bs = Some (xs, rest) \<longleftrightarrow> length xs = n \<and> bs = concat (map (put W) xs) @ rest"
proof (induction n arbitrary: bs xs)
  case (Suc n)
  show ?case
  proof (cases xs)
    case (Cons x ys)
    have "get_many W (Suc n) bs = Some (xs, rest) \<longleftrightarrow>
        (\<exists>bs'. get W bs = Some (x, bs') \<and> get_many W n bs' = Some (ys, rest))"
      by (auto simp: Cons split: option.splits)
    then show ?thesis by (auto simp: Cons Suc.IH get_iff)
  qed (auto split: option.splits)
qed auto

lemma put_many: "length (concat (map (put W) xs)) = length xs * width"
  by (induction xs) (simp_all add: put_width)

end

lemma wire_array:
  assumes "wire_format A n"
  shows "wire_format (wire_array A :: ('a, 'n::len) arr wire) (LENGTH('n) * n)"
proof
  fix a :: "('a, 'n) arr"
  show "length (put (wire_array A) a) = LENGTH('n) * n"
    by (simp add: wire_array_def wire_format.put_many [OF assms])
next
  fix bs rest and a :: "('a, 'n) arr"
  have "get (wire_array A) bs = Some (a, rest) \<longleftrightarrow>
      (\<exists>xs. get_many A LENGTH('n) bs = Some (xs, rest) \<and> a = arr_of xs)"
    by (auto simp: wire_array_def)
  also have "\<dots> \<longleftrightarrow> bs = put (wire_array A) a @ rest"
    unfolding wire_format.get_many_iff [OF assms]
    by (auto simp: wire_array_def intro!: exI [of _ "arr_list a"])
  finally show "get (wire_array A) bs = Some (a, rest) \<longleftrightarrow> bs = put (wire_array A) a @ rest" .
qed

section \<open>Accounts\<close>

text \<open>The primitive formats and the discriminators; a \<open>Pubkey\<close> is its 32 bytes.\<close>

record formats =
  fm_u8 :: "u8 wire"
  fm_u64 :: "u64 wire"
  fm_i64 :: "i64 wire"
  fm_bool :: "bool wire"
  fm_identity :: "u8 list"
  fm_issuer :: "u8 list"
  fm_nullifier :: "u8 list"

text \<open>\<open>PassKey\<close> and \<open>Attestation\<close>.\<close>

definition passkey_wire :: "formats \<Rightarrow> passkey wire" where
  "passkey_wire F =
     wire_as (\<lambda>p. (pk_pubkey p, pk_label p, pk_added_ts p, pk_is_active p))
       (\<lambda>(key, label, ts, active).
         \<lparr>pk_pubkey = key, pk_label = label, pk_added_ts = ts, pk_is_active = active\<rparr>)
       (wire_pair (wire_array (fm_u8 F)) (wire_pair (wire_array (fm_u8 F)) (wire_pair (fm_i64 F) (fm_bool F))))"

definition attestation_wire :: "formats \<Rightarrow> attestation wire" where
  "attestation_wire F =
     wire_as (\<lambda>a. (at_issuer a, at_schema_id a, at_claimed_ts a, at_is_active a))
       (\<lambda>(iss, schema, ts, active).
         \<lparr>at_issuer = iss, at_schema_id = schema, at_claimed_ts = ts, at_is_active = active\<rparr>)
       (wire_pair (wire_array (fm_u8 F)) (wire_pair (wire_array (fm_u8 F)) (wire_pair (fm_i64 F) (fm_bool F))))"

text \<open>\<open>Identity\<close>, \<open>Issuer\<close> and \<open>Nullifier\<close>.\<close>

definition identity_wire :: "formats \<Rightarrow> identity wire" where
  "identity_wire F =
     wire_as (\<lambda>i. (id_owner i, id_passkey_count i, id_passkeys i, id_attestation_count i,
         id_attestations i, id_bump i))
       (\<lambda>(owner, pk_count, pks, at_count, ats, bump).
         \<lparr>id_owner = owner, id_passkey_count = pk_count, id_passkeys = pks,
          id_attestation_count = at_count, id_attestations = ats, id_bump = bump\<rparr>)
       (wire_pair (wire_array (fm_u8 F)) (wire_pair (fm_u8 F) (wire_pair (wire_array (passkey_wire F))
         (wire_pair (fm_u8 F) (wire_pair (wire_array (attestation_wire F)) (fm_u8 F))))))"

definition issuer_wire :: "formats \<Rightarrow> issuer wire" where
  "issuer_wire F =
     wire_as (\<lambda>i. (iss_authority i, iss_schema_id i, iss_merkle_root i, iss_attestation_count i, iss_bump i))
       (\<lambda>(authority, schema, r, count, bump).
         \<lparr>iss_authority = authority, iss_schema_id = schema, iss_merkle_root = r,
          iss_attestation_count = count, iss_bump = bump\<rparr>)
       (wire_pair (wire_array (fm_u8 F)) (wire_pair (wire_array (fm_u8 F)) (wire_pair (wire_array (fm_u8 F))
         (wire_pair (fm_u64 F) (fm_u8 F)))))"

definition nullifier_wire :: "formats \<Rightarrow> nullifier wire" where
  "nullifier_wire F =
     wire_as (\<lambda>n. (nul_issuer n, nul_hash n, nul_bump n))
       (\<lambda>(iss, h, bump). \<lparr>nul_issuer = iss, nul_hash = h, nul_bump = bump\<rparr>)
       (wire_pair (wire_array (fm_u8 F)) (wire_pair (wire_array (fm_u8 F)) (fm_u8 F)))"

text \<open>What Anchor writes back after an instruction.\<close>

fun account_bytes :: "formats \<Rightarrow> account \<Rightarrow> u8 list" where
  "account_bytes F (AIdentity i) = fm_identity F @ put (identity_wire F) i"
| "account_bytes F (AIssuer i) = fm_issuer F @ put (issuer_wire F) i"
| "account_bytes F (ANullifier n) = fm_nullifier F @ put (nullifier_wire F) n"

text \<open>The space that \<open>init\<close> reserves.\<close>

fun account_space :: "account \<Rightarrow> nat" where
  "account_space (AIdentity i) = identity_space"
| "account_space (AIssuer i) = issuer_space"
| "account_space (ANullifier n) = nullifier_space"

text \<open>
  \<open>try_deserialize\<close>: the first eight bytes are the discriminator. Bytes behind the fields are
  ignored.
\<close>

datatype read_error = DiscriminatorNotFound | DiscriminatorMismatch | DidNotDeserialize

definition read_as :: "u8 list \<Rightarrow> 'a wire \<Rightarrow> u8 list \<Rightarrow> read_error + 'a" where
  "read_as disc W data =
     (if length data < 8 then Inl DiscriminatorNotFound
      else if take 8 data \<noteq> disc then Inl DiscriminatorMismatch
      else map_err (\<lambda>_. DidNotDeserialize) (ok_or (map_option fst (get W (drop 8 data))) ()))"

definition read_identity :: "formats \<Rightarrow> u8 list \<Rightarrow> read_error + identity" where
  "read_identity F = read_as (fm_identity F) (identity_wire F)"

definition read_issuer :: "formats \<Rightarrow> u8 list \<Rightarrow> read_error + issuer" where
  "read_issuer F = read_as (fm_issuer F) (issuer_wire F)"

text \<open>
  Borsh's primitive formats have the widths of the types, and Anchor's discriminators, eight
  bytes of a hash of the type's name, differ.
\<close>

locale account_formats =
  fixes F :: formats
  assumes u8_format: "wire_format (fm_u8 F) 1"
    and u64_format: "wire_format (fm_u64 F) 8"
    and i64_format: "wire_format (fm_i64 F) 8"
    and bool_format: "wire_format (fm_bool F) 1"
    and discriminator_length: "length (fm_identity F) = 8" "length (fm_issuer F) = 8" "length (fm_nullifier F) = 8"
    and discriminators_differ: "fm_identity F \<noteq> fm_issuer F" "fm_identity F \<noteq> fm_nullifier F" "fm_issuer F \<noteq> fm_nullifier F"
begin

lemmas primitive_formats = u8_format u64_format i64_format bool_format

lemma bytes_format: "wire_format (wire_array (fm_u8 F) :: 'n::len bytes wire) LENGTH('n)"
  using wire_array [OF u8_format, where ?'n = 'n] by simp

lemma passkey_format: "wire_format (passkey_wire F) (33 + (16 + (8 + 1)))"
  unfolding passkey_wire_def
  by (intro wire_as wire_pair primitive_formats)
    (use bytes_format [where ?'n = 33] bytes_format [where ?'n = 16] in auto)

lemma attestation_format: "wire_format (attestation_wire F) (32 + (32 + (8 + 1)))"
  unfolding attestation_wire_def
  by (intro wire_as wire_pair primitive_formats) (use bytes_format [where ?'n = 32] in auto)

lemma identity_format: "wire_format (identity_wire F) (identity_space - 8)"
proof -
  have "wire_format (identity_wire F)
      (32 + (1 + (4 * (33 + (16 + (8 + 1))) + (1 + (4 * (32 + (32 + (8 + 1))) + 1)))))"
    unfolding identity_wire_def
    by (intro wire_as wire_pair primitive_formats)
      (use bytes_format [where ?'n = 32] wire_array [OF passkey_format, where ?'n = 4]
        wire_array [OF attestation_format, where ?'n = 4] in auto)
  then show ?thesis
    by (simp add: identity_space_def MAX_PASSKEYS_def MAX_ATTESTATIONS_def P256_PUBKEY_LEN_def LABEL_LEN_def)
qed

lemma issuer_format: "wire_format (issuer_wire F) (issuer_space - 8)"
proof -
  have "wire_format (issuer_wire F) (32 + (32 + (32 + (8 + 1))))"
    unfolding issuer_wire_def
    by (intro wire_as wire_pair primitive_formats) (use bytes_format [where ?'n = 32] in auto)
  then show ?thesis by (simp add: issuer_space_def)
qed

lemma nullifier_format: "wire_format (nullifier_wire F) (nullifier_space - 8)"
proof -
  have "wire_format (nullifier_wire F) (32 + (32 + 1))"
    unfolding nullifier_wire_def
    by (intro wire_as wire_pair primitive_formats) (use bytes_format [where ?'n = 32] in auto)
  then show ?thesis by (simp add: nullifier_space_def)
qed

lemma account_bytes_length: "length (account_bytes F acc) = account_space acc"
  using wire_format.put_width [OF identity_format] wire_format.put_width [OF issuer_format]
    wire_format.put_width [OF nullifier_format]
  by (cases acc) (simp_all add: discriminator_length identity_space_def issuer_space_def nullifier_space_def)

end

lemma read_as_Inr:
  assumes "wire_format W n" and "length disc = 8"
  shows "read_as disc W data = Inr x \<longleftrightarrow> (\<exists>rest. data = disc @ put W x @ rest)"
proof -
  have "read_as disc W data = Inr x \<longleftrightarrow>
      8 \<le> length data \<and> take 8 data = disc \<and> (\<exists>rest. drop 8 data = put W x @ rest)"
    by (auto simp: read_as_def res_simps wire_format.get_iff [OF assms(1)])
  also have "\<dots> \<longleftrightarrow> (\<exists>rest. data = disc @ put W x @ rest)"
    using assms(2) by (auto simp: append_eq_conv_conj) (metis append_take_drop_id)
  finally show ?thesis .
qed

lemma read_as_other:
  "length disc = 8 \<Longrightarrow> length disc' = 8 \<Longrightarrow> disc' \<noteq> disc \<Longrightarrow>
     read_as disc W (disc' @ bs) = Inl DiscriminatorMismatch"
  by (simp add: read_as_def)

context account_formats begin

lemma read_identity_iff:
  "read_identity F data = Inr i \<longleftrightarrow> (\<exists>rest. data = account_bytes F (AIdentity i) @ rest)"
  unfolding read_identity_def by (simp add: read_as_Inr [OF identity_format] discriminator_length)

lemma read_issuer_iff:
  "read_issuer F data = Inr i \<longleftrightarrow> (\<exists>rest. data = account_bytes F (AIssuer i) @ rest)"
  unfolding read_issuer_def by (simp add: read_as_Inr [OF issuer_format] discriminator_length)

lemma read_account:
  "read_identity F (account_bytes F acc @ pad) =
     (case acc of AIdentity i \<Rightarrow> Inr i | _ \<Rightarrow> Inl DiscriminatorMismatch)"
  "read_issuer F (account_bytes F acc @ pad) =
     (case acc of AIssuer i \<Rightarrow> Inr i | _ \<Rightarrow> Inl DiscriminatorMismatch)"
proof -
  note other = read_as_other discriminator_length discriminators_differ not_sym [OF discriminators_differ(1)]
    not_sym [OF discriminators_differ(2)] not_sym [OF discriminators_differ(3)]
  show "read_identity F (account_bytes F acc @ pad) =
      (case acc of AIdentity i \<Rightarrow> Inr i | _ \<Rightarrow> Inl DiscriminatorMismatch)"
    by (cases acc) (auto simp: read_identity_iff, simp_all add: read_identity_def other)
  show "read_issuer F (account_bytes F acc @ pad) =
      (case acc of AIssuer i \<Rightarrow> Inr i | _ \<Rightarrow> Inl DiscriminatorMismatch)"
    by (cases acc) (auto simp: read_issuer_iff, simp_all add: read_issuer_def other)
qed

text \<open>The account loads of the model read the stored bytes.\<close>

lemma loads_read_bytes:
  "load_identity L m = (case L (am_key m) of
     None \<Rightarrow> Inl (Anchor AccountNotInitialized)
   | Some acc \<Rightarrow> map_err (\<lambda>_. Anchor AccountDiscriminatorMismatch) (read_identity F (account_bytes F acc)))"
  "load_issuer L m = (case L (am_key m) of
     None \<Rightarrow> Inl (Anchor AccountNotInitialized)
   | Some acc \<Rightarrow> map_err (\<lambda>_. Anchor AccountDiscriminatorMismatch) (read_issuer F (account_bytes F acc)))"
  using read_account [where pad = "[]"]
  by (simp_all add: load_identity_def load_issuer_def split: option.split account.split)

text \<open>An account that was read from bytes of full size is written back to the same bytes.\<close>

lemma read_full:
  "length data = identity_space \<Longrightarrow> read_identity F data = Inr i \<Longrightarrow> data = account_bytes F (AIdentity i)"
  "length data = issuer_space \<Longrightarrow> read_issuer F data = Inr j \<Longrightarrow> data = account_bytes F (AIssuer j)"
  using account_bytes_length [of "AIdentity i"] account_bytes_length [of "AIssuer j"]
  by (auto simp: read_identity_iff read_issuer_iff simp del: account_bytes.simps)

end

section \<open>The formats of Borsh\<close>

text \<open>Little-endian integers, a byte for a truth value, and Anchor's discriminators.\<close>

fun le_bytes :: "nat \<Rightarrow> nat \<Rightarrow> u8 list" where
  "le_bytes 0 n = []"
| "le_bytes (Suc k) n = word_of_nat n # le_bytes k (n div 256)"

fun le_value :: "u8 list \<Rightarrow> nat" where
  "le_value [] = 0"
| "le_value (b # bs) = unat b + 256 * le_value bs"

lemma length_le_bytes [simp]: "length (le_bytes k n) = k"
  by (induction k arbitrary: n) simp_all

lemma le_value_bytes: "le_value (le_bytes k n) = n mod 256 ^ k"
  by (induction k arbitrary: n) (simp_all add: unat_of_nat mod_mult2_eq)

lemma le_value_lt: "le_value bs < 256 ^ length bs"
proof (induction bs)
  case (Cons b bs)
  have "unat b < 2 ^ LENGTH(8)" by (rule unsigned_less)
  with Cons show ?case by simp
qed simp

lemma le_bytes_value: "length bs = k \<Longrightarrow> le_bytes k (le_value bs) = bs"
proof (induction bs arbitrary: k)
  case (Cons b bs)
  have "unat b < 2 ^ LENGTH(8)" by (rule unsigned_less)
  moreover have "256 * x = (0 :: u8)" for x
  proof -
    have "(256 :: u8) = 0" by simp
    then show ?thesis by (metis mult_zero_left)
  qed
  ultimately show ?case using Cons by auto
qed simp

definition word_wire :: "nat \<Rightarrow> 'n::len word wire" where
  "word_wire k =
     \<lparr>put = le_bytes k \<circ> unat,
      get = (\<lambda>bs. if length bs < k then None else Some (word_of_nat (le_value (take k bs)), drop k bs))\<rparr>"

lemma word_wire:
  assumes "LENGTH('n::len) = 8 * k"
  shows "wire_format (word_wire k :: 'n word wire) k"
proof
  have pow: "(256 :: nat) ^ k = 2 ^ LENGTH('n)" by (simp add: assms power_mult)
  fix v :: "'n word"
  show "length (put (word_wire k) v) = k" by (simp add: word_wire_def)
  fix bs rest
  have read: "word_of_nat (le_value (le_bytes k (unat v))) = v"
    by (simp add: le_value_bytes pow)
  have "le_bytes k (unat (word_of_nat (le_value (take k bs)) :: 'n word)) = take k bs" if "k \<le> length bs"
    using that le_value_lt [of "take k bs"]
    by (simp add: unat_of_nat pow min_absorb2 le_bytes_value)
  then show "get (word_wire k) bs = Some (v, rest) \<longleftrightarrow> bs = put (word_wire k) v @ rest"
    by (auto simp: word_wire_def read split: if_splits)
qed

definition bool_wire :: "bool wire" where
  "bool_wire =
     \<lparr>put = (\<lambda>b. [if b then 1 else 0]),
      get = (\<lambda>bs. case bs of [] \<Rightarrow> None
        | b # rest \<Rightarrow> if b = 0 then Some (False, rest) else if b = 1 then Some (True, rest) else None)\<rparr>"

lemma bool_wire: "wire_format bool_wire 1"
  by unfold_locales (auto simp: bool_wire_def split: list.splits if_splits)

definition borsh :: formats where
  "borsh = \<lparr>fm_u8 = word_wire 1, fm_u64 = word_wire 8, fm_i64 = word_wire 8, fm_bool = bool_wire,
     fm_identity = [58, 132, 5, 12, 176, 164, 85, 112],
     fm_issuer = [216, 19, 83, 230, 108, 53, 80, 14],
     fm_nullifier = [18, 56, 142, 165, 181, 158, 187, 133]\<rparr>"

interpretation borsh: account_formats borsh
  by (rule account_formats.intro)
    (simp_all add: borsh_def word_wire bool_wire word_wire [of 1, simplified] bool_wire [simplified])

section \<open>Properties\<close>

text \<open>
  C18 Account bytes: over the formats of Borsh the bytes of an account fill exactly the space
  that is reserved for it, so that no instruction runs out of it; reading them gives the
  account back as its own type and the mismatch of discriminators as another one; and
  conversely the bytes from which an account of full size is read are the ones that are
  written for it.
\<close>

theorem accounts_as_bytes:
  assumes "account_formats F"
  shows "length (account_bytes F acc) = account_space acc \<and>
    read_identity F (account_bytes F acc @ pad) =
      (case acc of AIdentity i \<Rightarrow> Inr i | _ \<Rightarrow> Inl DiscriminatorMismatch) \<and>
    read_issuer F (account_bytes F acc @ pad) =
      (case acc of AIssuer i \<Rightarrow> Inr i | _ \<Rightarrow> Inl DiscriminatorMismatch) \<and>
    (length data = identity_space \<and> read_identity F data = Inr i \<longrightarrow> data = account_bytes F (AIdentity i)) \<and>
    (length data = issuer_space \<and> read_issuer F data = Inr j \<longrightarrow> data = account_bytes F (AIssuer j))"
  using account_formats.account_bytes_length [OF assms] account_formats.read_account [OF assms]
    account_formats.read_full [OF assms] by blast

theorem accounts_as_bytes_witness:
  "let i = \<lparr>id_owner = arr_fill 7, id_passkey_count = 0, id_passkeys = arr_fill passkey_default,
       id_attestation_count = 0, id_attestations = arr_fill attestation_default, id_bump = 255\<rparr>
   in length (account_bytes borsh (AIdentity i)) = 567 \<and>
     read_identity borsh (account_bytes borsh (AIdentity i)) = Inr i \<and>
     read_issuer borsh (account_bytes borsh (AIdentity i)) = Inl DiscriminatorMismatch"
  unfolding Let_def
  using accounts_as_bytes [OF borsh.account_formats_axioms, of "AIdentity _" "[]"]
  by (simp add: identity_space_def MAX_PASSKEYS_def MAX_ATTESTATIONS_def P256_PUBKEY_LEN_def LABEL_LEN_def
      del: account_bytes.simps)

end
