(* ===== verification/Domain.thy ===== *)
theory Domain
  imports Arrays
begin

text \<open>
  The off-chain domain model, \<open>offchain/crates/types/src/lib.rs\<close>: the \<open>Pubkey\<close> and
  \<open>Digest\<close> newtypes, their hex text form, and the view records that the engine, the
  stores and the API exchange. A Rust string is the list of its UTF-8 bytes (\<open>char\<close> is a
  byte in HOL), which is what \<open>len\<close>, \<open>strip_prefix\<close> and \<open>as_bytes\<close> read.
\<close>

section \<open>Newtypes and records\<close>

datatype domain_error = InvalidHex nat | DomainNotFound

datatype pubkey = Pubkey (pk_bytes: "32 bytes")

datatype digest = Digest (dg_bytes: "32 bytes")

definition digest_zero :: digest where
  "digest_zero = Digest (arr_fill 0)"

record passkey_view =
  pkv_pubkey_hex :: string
  pkv_label :: string
  pkv_added_ts :: i64

record attestation_view =
  atv_issuer :: pubkey
  atv_schema_id :: digest
  atv_claimed_ts :: i64

record identity_view =
  idv_address :: pubkey
  idv_owner :: pubkey
  idv_passkeys :: "passkey_view list"
  idv_attestations :: "attestation_view list"

record issuer_view =
  isv_address :: pubkey
  isv_authority :: pubkey
  isv_schema_id :: digest
  isv_merkle_root :: digest
  isv_attestation_count :: u64

record merkle_proof =
  mp_leaf :: digest
  mp_siblings :: "digest list"
  mp_index_bits :: u64

record identity_stats =
  st_identities :: u64
  st_issuers :: u64
  st_passkeys :: u64
  st_attestations :: u64

text \<open>The derived order of the newtypes is the order of the bytes.\<close>

instantiation pubkey :: linorder
begin

definition less_eq_pubkey :: "pubkey \<Rightarrow> pubkey \<Rightarrow> bool" where
  "less_eq_pubkey a b \<longleftrightarrow> pk_bytes a \<le> pk_bytes b"

definition less_pubkey :: "pubkey \<Rightarrow> pubkey \<Rightarrow> bool" where
  "less_pubkey a b \<longleftrightarrow> pk_bytes a < pk_bytes b"

instance
  by standard (auto simp: less_eq_pubkey_def less_pubkey_def intro: pubkey.expand)

end

instantiation digest :: linorder
begin

definition less_eq_digest :: "digest \<Rightarrow> digest \<Rightarrow> bool" where
  "less_eq_digest a b \<longleftrightarrow> dg_bytes a \<le> dg_bytes b"

definition less_digest :: "digest \<Rightarrow> digest \<Rightarrow> bool" where
  "less_digest a b \<longleftrightarrow> dg_bytes a < dg_bytes b"

instance
  by standard (auto simp: less_eq_digest_def less_digest_def intro: digest.expand)

end

section \<open>Hexadecimal text\<close>

text \<open>\<open>char::to_digit(16)\<close> on a byte read as a character.\<close>

definition to_digit16 :: "char \<Rightarrow> nat option" where
  "to_digit16 c =
     (let n = of_char c :: nat in
      if 48 \<le> n \<and> n \<le> 57 then Some (n - 48)
      else if 97 \<le> n \<and> n \<le> 102 then Some (n - 87)
      else if 65 \<le> n \<and> n \<le> 70 then Some (n - 55)
      else None)"

text \<open>\<open>s.strip_prefix("0x").unwrap_or(s)\<close>.\<close>

fun strip_0x :: "string \<Rightarrow> string" where
  "strip_0x (a # b # s) = (if a = CHR ''0'' \<and> b = CHR ''x'' then s else a # b # s)"
| "strip_0x s = s"

text \<open>
  The loop of \<open>decode_hex\<close> over \<open>as_bytes().chunks(2).enumerate()\<close>, writing \<open>out[i]\<close>.
  The length check before it leaves no odd last chunk, so its last equation only meets
  the empty rest.
\<close>

fun decode_loop :: "nat \<Rightarrow> string \<Rightarrow> 'n::len bytes \<Rightarrow> domain_error + 'n bytes" where
  "decode_loop i (c0 # c1 # rest) out =
     res_bind (ok_or (to_digit16 c0) (InvalidHex LENGTH('n))) (\<lambda>hi.
     res_bind (ok_or (to_digit16 c1) (InvalidHex LENGTH('n))) (\<lambda>lo.
       decode_loop (Suc i) rest (arr_set out i (of_nat (hi * 16 + lo)))))"
| "decode_loop i _ out = Inr out"

definition decode_hex :: "string \<Rightarrow> domain_error + 'n::len bytes" where
  "decode_hex s0 =
     (let s = strip_0x s0 in
      if length s \<noteq> LENGTH('n) * 2 then Inl (InvalidHex LENGTH('n))
      else decode_loop 0 s (arr_fill 0))"

text \<open>\<open>format!("{b:02x}")\<close> for every byte.\<close>

definition hex_char :: "nat \<Rightarrow> char" where
  "hex_char d = char_of (if d < 10 then 48 + d else 87 + d)"

definition byte_hex :: "u8 \<Rightarrow> string" where
  "byte_hex b = [hex_char (unat b div 16), hex_char (unat b mod 16)]"

definition to_hex :: "u8 list \<Rightarrow> string" where
  "to_hex bs = concat (map byte_hex bs)"

definition pubkey_to_hex :: "pubkey \<Rightarrow> string" where
  "pubkey_to_hex k = to_hex (arr_list (pk_bytes k))"

definition pubkey_from_hex :: "string \<Rightarrow> domain_error + pubkey" where
  "pubkey_from_hex s = res_bind (decode_hex s) (\<lambda>b. Inr (Pubkey b))"

definition digest_to_hex :: "digest \<Rightarrow> string" where
  "digest_to_hex d = to_hex (arr_list (dg_bytes d))"

definition digest_from_hex :: "string \<Rightarrow> domain_error + digest" where
  "digest_from_hex s = res_bind (decode_hex s) (\<lambda>b. Inr (Digest b))"

section \<open>Correctness of the hex codec\<close>

text \<open>The case folding under which parsing and printing are inverse.\<close>

definition ascii_lower :: "char \<Rightarrow> char" where
  "ascii_lower c =
     (let n = of_char c :: nat in if 65 \<le> n \<and> n \<le> 90 then char_of (n + 32) else c)"

lemma char_eq_iff_of_char: "c = d \<longleftrightarrow> (of_char c :: nat) = of_char d"
  by (metis char_of_char)

lemma of_char_lt_256: "(of_char c :: nat) < 256"
  by (metis char_of_char of_char_of mod_less_divisor zero_less_numeral)

lemma to_digit16_iff: "to_digit16 c = Some d \<longleftrightarrow> d < 16 \<and> ascii_lower c = hex_char d"
  using of_char_lt_256 [of c]
  by (auto simp: to_digit16_def ascii_lower_def hex_char_def Let_def char_eq_iff_of_char
      split: if_splits)

lemma hex_char_lower: "d < 16 \<Longrightarrow> ascii_lower (hex_char d) = hex_char d"
  by (auto simp: ascii_lower_def hex_char_def Let_def)

lemma to_digit16_hex_char: "d < 16 \<Longrightarrow> to_digit16 (hex_char d) = Some d"
  by (simp add: to_digit16_iff hex_char_lower)

lemma hex_char_not_x: "d < 16 \<Longrightarrow> hex_char d \<noteq> CHR ''x''"
  by (auto simp: hex_char_def char_eq_iff_of_char)

lemma length_byte_hex [simp]: "length (byte_hex b) = 2"
  by (simp add: byte_hex_def)

lemma length_to_hex [simp]: "length (to_hex bs) = 2 * length bs"
  by (induction bs) (simp_all add: to_hex_def)

lemma to_hex_Nil_iff [simp]: "to_hex bs = [] \<longleftrightarrow> bs = []"
  by (metis length_0_conv length_to_hex mult_eq_0_iff zero_neq_numeral)

lemma to_hex_Nil_iff2 [simp]: "[] = to_hex bs \<longleftrightarrow> bs = []"
  using to_hex_Nil_iff [of bs] by metis

lemma to_hex_Cons: "to_hex (b # bs) = hex_char (unat b div 16) # hex_char (unat b mod 16) # to_hex bs"
  by (simp add: to_hex_def byte_hex_def)

lemma unat_byte_lt: "unat (b :: u8) < 256"
proof -
  have "unat b < 2 ^ LENGTH(8)" by (rule unsigned_less)
  then show ?thesis by simp
qed

lemma unat_of_nat_byte: "n < 256 \<Longrightarrow> unat (of_nat n :: u8) = n"
  by (simp add: unat_of_nat)

lemma of_nat_hex_digits: "(of_nat (unat b div 16 * 16 + unat b mod 16) :: u8) = b"
  by (simp flip: mult.commute)

lemma strip_0x_to_hex [simp]: "strip_0x (to_hex bs) = to_hex bs"
proof (cases bs)
  case Nil
  then show ?thesis by (simp add: to_hex_def)
next
  case (Cons b bs')
  then show ?thesis by (simp add: to_hex_Cons hex_char_not_x)
qed

lemma byte_hex_inj: "byte_hex a = byte_hex b \<Longrightarrow> a = b"
proof -
  assume "byte_hex a = byte_hex b"
  then have "to_digit16 (hex_char (unat a div 16)) = to_digit16 (hex_char (unat b div 16))"
    "to_digit16 (hex_char (unat a mod 16)) = to_digit16 (hex_char (unat b mod 16))"
    by (simp_all add: byte_hex_def)
  then have "unat a div 16 = unat b div 16" "unat a mod 16 = unat b mod 16"
    using unat_byte_lt [of a] unat_byte_lt [of b] by (simp_all add: to_digit16_hex_char)
  then have "unat a = unat b"
    by (metis div_mult_mod_eq)
  then show "a = b" by (rule unsigned_word_eqI)
qed

lemma decode_byte_iff:
  "to_digit16 c0 = Some hi \<and> to_digit16 c1 = Some lo \<longleftrightarrow>
     hi < 16 \<and> lo < 16 \<and> [ascii_lower c0, ascii_lower c1] = byte_hex (of_nat (hi * 16 + lo))"
proof -
  have "unat (of_nat (hi * 16 + lo) :: u8) = hi * 16 + lo" if "hi < 16" "lo < 16"
    using that by (intro unat_of_nat_byte) simp
  then show ?thesis
    by (auto simp: to_digit16_iff byte_hex_def)
qed

text \<open>The loop stores, from index \<open>i\<close> on, the bytes whose text it reads.\<close>

lemma decode_loop_Inr_iff:
  fixes out a :: "'n::len bytes"
  assumes "length s = 2 * m" and "i + m = LENGTH('n)"
  shows "decode_loop i s out = Inr a \<longleftrightarrow>
    (\<exists>bs. map ascii_lower s = to_hex bs \<and> arr_list a = take i (arr_list out) @ bs)"
  using assms
proof (induction i s out arbitrary: m rule: decode_loop.induct)
  case (1 i c0 c1 rest out)
  from "1.prems" obtain k where m: "m = Suc k" and k: "length rest = 2 * k" "Suc i + k = LENGTH('n)"
    by (cases m) auto
  show ?case
  proof (cases "\<exists>hi lo. to_digit16 c0 = Some hi \<and> to_digit16 c1 = Some lo")
    case True
    then obtain hi lo where d: "to_digit16 c0 = Some hi" "to_digit16 c1 = Some lo" by blast
    define b :: u8 where "b = of_nat (hi * 16 + lo)"
    have hx: "[ascii_lower c0, ascii_lower c1] = byte_hex b"
      using d decode_byte_iff [of c0 hi c1 lo] by (simp add: b_def)
    have upd: "take (Suc i) ((arr_list out)[i := b]) = take i (arr_list out) @ [b]"
      using "1.prems"(2) m by (simp add: take_Suc_conv_app_nth)
    have "decode_loop i (c0 # c1 # rest) out = Inr a \<longleftrightarrow>
        decode_loop (Suc i) rest (arr_set out i b) = Inr a"
      using d by (simp add: b_def)
    also have "\<dots> \<longleftrightarrow> (\<exists>bs. map ascii_lower rest = to_hex bs \<and>
        arr_list a = take (Suc i) (arr_list (arr_set out i b)) @ bs)"
      unfolding b_def by (rule "1.IH" [OF k])
    also have "\<dots> \<longleftrightarrow> (\<exists>bs. map ascii_lower (c0 # c1 # rest) = to_hex bs \<and>
        arr_list a = take i (arr_list out) @ bs)"
      (is "(\<exists>bs. ?L bs) \<longleftrightarrow> (\<exists>bs. ?R bs)")
    proof
      assume "\<exists>bs. ?L bs"
      then obtain bs where "?L bs" by blast
      with hx have "?R (b # bs)" by (simp add: upd to_hex_def byte_hex_def)
      then show "\<exists>bs. ?R bs" ..
    next
      assume "\<exists>bs. ?R bs"
      then obtain bs where R: "?R bs" by blast
      then obtain b' bs' where bs: "bs = b' # bs'"
        by (cases bs) (auto simp: to_hex_def)
      with R hx have "byte_hex b' = byte_hex b" by (simp add: to_hex_Cons byte_hex_def)
      then have "b' = b" by (rule byte_hex_inj)
      with R bs hx have "?L bs'" by (simp add: upd to_hex_Cons byte_hex_def)
      then show "\<exists>bs. ?L bs" ..
    qed
    finally show ?thesis .
  next
    case False
    then have "decode_loop i (c0 # c1 # rest) out \<noteq> Inr a"
      by (auto simp: res_simps)
    moreover have "map ascii_lower (c0 # c1 # rest) \<noteq> to_hex bs" for bs
    proof
      assume eq: "map ascii_lower (c0 # c1 # rest) = to_hex bs"
      then obtain b bs' where "bs = b # bs'" by (cases bs) (auto simp: to_hex_def)
      with eq have "to_digit16 c0 = Some (unat b div 16)" "to_digit16 c1 = Some (unat b mod 16)"
        using unat_byte_lt [of b] by (auto simp: to_hex_Cons to_digit16_iff)
      with False show False by blast
    qed
    ultimately show ?thesis by blast
  qed
next
  case "2_1"
  then show ?case by (auto simp: arr_eq_iff)
next
  case "2_2"
  then have "Suc 0 = 2 * m" by simp
  then show ?case by presburger
qed

lemma decode_loop_Inl_iff:
  fixes out :: "'n::len bytes"
  assumes "even (length s)"
  shows "decode_loop i s out = Inl e \<longleftrightarrow>
    e = InvalidHex LENGTH('n) \<and> (\<exists>c \<in> set s. to_digit16 c = None)"
  using assms
  by (induction i s out rule: decode_loop.induct)
    (auto simp: ok_or_def split: option.splits)

lemma decode_hex_Inr_iff:
  fixes a :: "'n::len bytes"
  shows "decode_hex s = Inr a \<longleftrightarrow> map ascii_lower (strip_0x s) = to_hex (arr_list a)"
proof (cases "length (strip_0x s) = LENGTH('n) * 2")
  case True
  then have "decode_hex s = Inr a \<longleftrightarrow>
      (\<exists>bs. map ascii_lower (strip_0x s) = to_hex bs \<and> arr_list a = bs)"
    using decode_loop_Inr_iff [of "strip_0x s" "LENGTH('n)" 0 "arr_fill 0" a]
    by (simp add: decode_hex_def Let_def)
  then show ?thesis by auto
next
  case False
  have "length (to_hex (arr_list a)) = LENGTH('n) * 2" by simp
  with False have "map ascii_lower (strip_0x s) \<noteq> to_hex (arr_list a)"
    by (metis length_map)
  with False show ?thesis by (simp add: decode_hex_def Let_def)
qed

lemma map_lower_to_hex [simp]: "map ascii_lower (to_hex bs) = to_hex bs"
proof (induction bs)
  case Nil
  show ?case by (simp add: to_hex_def)
next
  case (Cons b bs)
  have "unat b div 16 < 16" "unat b mod 16 < 16"
    using unat_byte_lt [of b] by auto
  with Cons show ?case by (simp add: to_hex_Cons hex_char_lower)
qed

lemma decode_hex_to_hex [simp]:
  "decode_hex (to_hex (arr_list a)) = Inr a"
  "decode_hex (CHR ''0'' # CHR ''x'' # to_hex (arr_list a)) = Inr a"
  by (simp_all add: decode_hex_Inr_iff)

section \<open>Properties\<close>

text \<open>
  C39 Parsing accepts exactly the hexadecimal texts of the width: \<open>decode_hex\<close> returns \<open>a\<close>
  if and only if the input, less one optional \<open>0x\<close> prefix and up to letter case, is the
  text that \<open>to_hex\<close> prints for \<open>a\<close>; every other input, of a wrong length or holding a
  character that is no hexadecimal digit, is \<open>InvalidHex\<close> with the expected width.
\<close>

theorem decode_hex_spec:
  fixes a :: "'n::len bytes"
  shows "(decode_hex s = Inr a \<longleftrightarrow> map ascii_lower (strip_0x s) = to_hex (arr_list a)) \<and>
    (\<forall>e. (decode_hex s :: domain_error + 'n bytes) = Inl e \<longleftrightarrow> e = InvalidHex LENGTH('n) \<and>
      (length (strip_0x s) \<noteq> 2 * LENGTH('n) \<or> (\<exists>c. c \<in> set (strip_0x s) \<and> to_digit16 c = None)))"
proof -
  have "(decode_hex s :: domain_error + 'n bytes) = Inl e \<longleftrightarrow> e = InvalidHex LENGTH('n) \<and>
      (length (strip_0x s) \<noteq> 2 * LENGTH('n) \<or> (\<exists>c. c \<in> set (strip_0x s) \<and> to_digit16 c = None))" for e
    using decode_loop_Inl_iff [of "strip_0x s" 0 "arr_fill 0 :: 'n bytes" e]
    by (auto simp: decode_hex_def Let_def mult.commute)
  then show ?thesis by (simp add: decode_hex_Inr_iff)
qed

theorem decode_hex_spec_witness:
  "(decode_hex ''0x7'' :: domain_error + 1 bytes) = Inl (InvalidHex 1) \<and>
   (decode_hex ''0xAf'' :: domain_error + 1 bytes) = Inr (arr_fill 175)"
  using decode_hex_spec [where 'n = 1, of "''0x7''"] decode_hex_spec [where 'n = 1, of "''0xAf''"]
  by (simp add: ascii_lower_def to_hex_Cons hex_char_def char_eq_iff_of_char)

text \<open>
  Printing then parsing is the identity, for keys and for digests, with or without the
  \<open>0x\<close> prefix.
\<close>

lemma hex_roundtrip:
  "pubkey_from_hex (pubkey_to_hex k) = Inr k \<and>
   pubkey_from_hex (''0x'' @ pubkey_to_hex k) = Inr k \<and>
   digest_from_hex (digest_to_hex d) = Inr d \<and>
   digest_from_hex (''0x'' @ digest_to_hex d) = Inr d"
  by (simp add: pubkey_from_hex_def pubkey_to_hex_def digest_from_hex_def digest_to_hex_def)

end
