(* ===== verification/Stores.thy ===== *)
theory Stores
  imports Domain "HOL-Library.DAList"
begin

text \<open>
  The storage ports of the off-chain service (\<open>core/src/ports.rs\<close>) as interfaces, and
  their implementations: the adapters over \<open>DashMap\<close> of \<open>infra/src/lib.rs\<close> and the vector
  stores that the engine's tests use (\<open>core/src/engine.rs\<close>). Every port call is atomic:
  it reads or replaces the state of one store. A read leaves the state alone.
\<close>

section \<open>Ports\<close>

datatype port_error = Backend string | NotFound

text \<open>\<open>IdentityStore\<close> and \<open>IssuerStore\<close> over a state \<open>'s\<close> and a value type \<open>'v\<close>.\<close>

record ('s, 'v) store =
  sto_all :: "'s \<Rightarrow> port_error + 'v list"
  sto_get :: "'s \<Rightarrow> pubkey \<Rightarrow> port_error + 'v"
  sto_upsert :: "'s \<Rightarrow> 'v \<Rightarrow> (port_error + unit) \<times> 's"

text \<open>\<open>TreeStore\<close>.\<close>

record 's leaf_store =
  lst_put :: "'s \<Rightarrow> pubkey \<Rightarrow> digest list \<Rightarrow> (port_error + unit) \<times> 's"
  lst_get :: "'s \<Rightarrow> pubkey \<Rightarrow> port_error + digest list"

text \<open>The contents of a store as a map.\<close>

definition store_map :: "('s, 'v) store \<Rightarrow> 's \<Rightarrow> pubkey \<Rightarrow> 'v option" where
  "store_map S s k = (case sto_get S s k of Inl _ \<Rightarrow> None | Inr v \<Rightarrow> Some v)"

definition leaf_lookup :: "'s leaf_store \<Rightarrow> 's \<Rightarrow> pubkey \<Rightarrow> digest list option" where
  "leaf_lookup T s k = (case lst_get T s k of Inl _ \<Rightarrow> None | Inr v \<Rightarrow> Some v)"

text \<open>
  What a client of a healthy store relies on: a store starts empty, an upsert succeeds and
  is seen by every later read of its key and by no other, a missing key is \<open>NotFound\<close>, and
  the listing holds every stored value once. \<open>ok\<close> is the invariant of the provider.
\<close>

locale keyed_store =
  fixes S :: "('s, 'v) store" and key :: "'v \<Rightarrow> pubkey" and empty :: 's and ok :: "'s \<Rightarrow> bool"
  assumes ok_empty: "ok empty"
    and get_empty: "sto_get S empty k = Inl NotFound"
    and ok_upsert: "ok s \<Longrightarrow> ok (snd (sto_upsert S s v))"
    and upsert_succeeds: "fst (sto_upsert S s v) = Inr ()"
    and get_upsert: "ok s \<Longrightarrow> sto_get S (snd (sto_upsert S s v)) k =
      (if k = key v then Inr v else sto_get S s k)"
    and get_key: "ok s \<Longrightarrow> sto_get S s k = Inr v \<Longrightarrow> key v = k"
    and get_error: "sto_get S s k = Inl e \<Longrightarrow> e = NotFound"
    and all_law: "ok s \<Longrightarrow> \<exists>vs. sto_all S s = Inr vs \<and> distinct (map key vs) \<and>
      (\<forall>v. v \<in> set vs \<longleftrightarrow> sto_get S s (key v) = Inr v)"
begin

lemma get_content: "sto_get S s k = ok_or (store_map S s k) NotFound"
  using get_error [of s k] by (cases "sto_get S s k") (auto simp: store_map_def)

lemma content_empty: "store_map S empty = Map.empty"
  by (auto simp: store_map_def get_empty)

lemma content_upsert: "ok s \<Longrightarrow> store_map S (snd (sto_upsert S s v)) = (store_map S s)(key v \<mapsto> v)"
  by (auto simp: store_map_def get_upsert)

lemma upsert_case: "case_prod f (sto_upsert S s v) = f (Inr ()) (snd (sto_upsert S s v))"
  by (metis prod.collapse case_prod_conv upsert_succeeds)

lemma content_key: "ok s \<Longrightarrow> store_map S s k = Some v \<Longrightarrow> key v = k"
  by (auto simp: store_map_def intro: get_key split: sum.splits)

text \<open>The listing is a permutation of the contents, so it has as many entries.\<close>

lemma all_content:
  assumes "ok s"
  obtains vs where "sto_all S s = Inr vs" and "distinct (map key vs)"
    and "set vs = ran (store_map S s)" and "length vs = card (dom (store_map S s))"
proof -
  from all_law [OF assms] obtain vs where vs: "sto_all S s = Inr vs" "distinct (map key vs)"
    "\<And>v. v \<in> set vs \<longleftrightarrow> store_map S s (key v) = Some v"
    by (auto simp: get_content ok_or_iff)
  have set: "set vs = ran (store_map S s)"
    using vs(3) content_key [OF assms] by (auto simp: ran_def)
  have "dom (store_map S s) = key ` set vs"
  proof
    show "dom (store_map S s) \<subseteq> key ` set vs"
      using content_key [OF assms] by (force simp: set ran_def image_iff)
    show "key ` set vs \<subseteq> dom (store_map S s)"
      using vs(3) by auto
  qed
  then have "length vs = card (dom (store_map S s))"
    using vs(2) distinct_card by (metis length_map list.set_map)
  with vs set show thesis by (intro that) auto
qed

end

locale leaf_map =
  fixes T :: "'s leaf_store" and empty :: 's
  assumes leaves_empty: "lst_get T empty k = Inl NotFound"
    and put_succeeds: "fst (lst_put T s k ls) = Inr ()"
    and leaves_put: "lst_get T (snd (lst_put T s k ls)) k' = (if k' = k then Inr ls else lst_get T s k')"
    and leaves_error: "lst_get T s k = Inl e \<Longrightarrow> e = NotFound"
begin

lemma leaves_content: "lst_get T s k = ok_or (leaf_lookup T s k) NotFound"
  using leaves_error [of s k] by (cases "lst_get T s k") (auto simp: leaf_lookup_def)

lemma leaf_lookup_put: "leaf_lookup T (snd (lst_put T s k ls)) = (leaf_lookup T s)(k \<mapsto> ls)"
  by (auto simp: leaf_lookup_def leaves_put)

lemma put_case: "case_prod f (lst_put T s k ls) = f (Inr ()) (snd (lst_put T s k ls))"
  by (metis prod.collapse case_prod_conv put_succeeds)

end

section \<open>The vector stores\<close>

definition vec_store :: "('v \<Rightarrow> pubkey) \<Rightarrow> ('v list, 'v) store" where
  "vec_store key =
     \<lparr>sto_all = (\<lambda>g. Inr g),
      sto_get = (\<lambda>g address. ok_or (List.find (\<lambda>i. key i = address) g) NotFound),
      sto_upsert = (\<lambda>g v. (Inr (), filter (\<lambda>i. key i \<noteq> key v) g @ [v]))\<rparr>"

definition MemIdentities :: "(identity_view list, identity_view) store" where
  "MemIdentities = vec_store idv_address"

definition MemIssuers :: "(issuer_view list, issuer_view) store" where
  "MemIssuers = vec_store isv_address"

definition MemTrees :: "(pubkey \<times> digest list) list leaf_store" where
  "MemTrees =
     \<lparr>lst_put = (\<lambda>g issuer leaves. (Inr (), filter (\<lambda>p. fst p \<noteq> issuer) g @ [(issuer, leaves)])),
      lst_get = (\<lambda>g issuer. ok_or (map_option snd (List.find (\<lambda>p. fst p = issuer) g)) NotFound)\<rparr>"

lemma find_append_other:
  "List.find p (filter (\<lambda>x. \<not> q x) xs @ [v]) =
     (if p v then Some v else List.find p xs)"
  if "\<And>x. p x \<Longrightarrow> \<not> q x \<or> p v" and "p v \<Longrightarrow> (\<And>x. p x \<Longrightarrow> q x)"
  using that by (induction xs) auto

lemma find_distinct_iff:
  "distinct (map key xs) \<Longrightarrow> List.find (\<lambda>i. key i = key v) xs = Some v \<longleftrightarrow> v \<in> set xs"
  by (induction xs) (auto simp: image_iff)

interpretation vec: keyed_store "vec_store key" key "[]" "\<lambda>g. distinct (map key g)" for key :: "'v \<Rightarrow> pubkey"
proof unfold_locales
  fix s :: "'v list" and v k
  show "sto_get (vec_store key) (snd (sto_upsert (vec_store key) s v)) k =
      (if k = key v then Inr v else sto_get (vec_store key) s k)"
    using find_append_other [of "\<lambda>i. key i = k" "\<lambda>i. key i = key v" v s]
    by (auto simp: vec_store_def)
  show "sto_get (vec_store key) s k = Inr v \<Longrightarrow> key v = k"
    by (auto simp: vec_store_def ok_or_iff find_Some_iff)
  show "distinct (map key s) \<Longrightarrow> \<exists>vs. sto_all (vec_store key) s = Inr vs \<and> distinct (map key vs) \<and>
      (\<forall>v. v \<in> set vs \<longleftrightarrow> sto_get (vec_store key) s (key v) = Inr v)"
    by (simp add: vec_store_def ok_or_iff find_distinct_iff)
qed (auto simp: vec_store_def ok_or_iff distinct_map_filter)

interpretation mem_trees: leaf_map MemTrees "[]"
proof unfold_locales
  fix s k ls k'
  show "lst_get MemTrees (snd (lst_put MemTrees s k ls)) k' = (if k' = k then Inr ls else lst_get MemTrees s k')"
    using find_append_other [of "\<lambda>p. fst p = k'" "\<lambda>p. fst p = k" "(k, ls)" s]
    by (auto simp: MemTrees_def)
qed (auto simp: MemTrees_def ok_or_iff)

section \<open>The stores over DashMap\<close>

text \<open>
  \<open>DashMap\<close> is a library: a record of the operations the adapters call, with the
  documented contract as the locale \<open>dashmap\<close>: \<open>get\<close> sees the last \<open>insert\<close> of the key,
  and \<open>iter\<close> yields every entry once.
\<close>

record ('m, 'k, 'v) dashmap =
  dm_new :: 'm
  dm_get :: "'m \<Rightarrow> 'k \<Rightarrow> 'v option"
  dm_insert :: "'m \<Rightarrow> 'k \<Rightarrow> 'v \<Rightarrow> 'm"
  dm_iter :: "'m \<Rightarrow> ('k \<times> 'v) list"

definition InMemoryIdentityStore ::
    "('m, 32 bytes, identity_view) dashmap \<Rightarrow> ('m, identity_view) store" where
  "InMemoryIdentityStore D =
     \<lparr>sto_all = (\<lambda>inner. Inr (map snd (dm_iter D inner))),
      sto_get = (\<lambda>inner address. ok_or (dm_get D inner (pk_bytes address)) NotFound),
      sto_upsert = (\<lambda>inner identity.
        (Inr (), dm_insert D inner (pk_bytes (idv_address identity)) identity))\<rparr>"

definition InMemoryIssuerStore ::
    "('m, 32 bytes, issuer_view) dashmap \<Rightarrow> ('m, issuer_view) store" where
  "InMemoryIssuerStore D =
     \<lparr>sto_all = (\<lambda>inner. Inr (map snd (dm_iter D inner))),
      sto_get = (\<lambda>inner address. ok_or (dm_get D inner (pk_bytes address)) NotFound),
      sto_upsert = (\<lambda>inner issuer.
        (Inr (), dm_insert D inner (pk_bytes (isv_address issuer)) issuer))\<rparr>"

definition InMemoryTreeStore :: "('m, 32 bytes, digest list) dashmap \<Rightarrow> 'm leaf_store" where
  "InMemoryTreeStore D =
     \<lparr>lst_put = (\<lambda>inner issuer leaves. (Inr (), dm_insert D inner (pk_bytes issuer) leaves)),
      lst_get = (\<lambda>inner issuer. ok_or (dm_get D inner (pk_bytes issuer)) NotFound)\<rparr>"

text \<open>Every entry lies under the address of its value.\<close>

definition keyed_by :: "('v \<Rightarrow> pubkey) \<Rightarrow> ('m, 32 bytes, 'v) dashmap \<Rightarrow> 'm \<Rightarrow> bool" where
  "keyed_by key D m \<longleftrightarrow> (\<forall>k v. dm_get D m k = Some v \<longrightarrow> pk_bytes (key v) = k)"

locale dashmap =
  fixes D :: "('m, 'k, 'v) dashmap"
  assumes dm_get_new: "dm_get D (dm_new D) k = None"
    and dm_get_insert: "dm_get D (dm_insert D m k v) k' = (if k' = k then Some v else dm_get D m k')"
    and dm_iter_set: "(k, v) \<in> set (dm_iter D m) \<longleftrightarrow> dm_get D m k = Some v"
    and dm_iter_distinct: "distinct (map fst (dm_iter D m))"
begin

lemma values_distinct:
  assumes "\<And>k v. dm_get D m k = Some v \<Longrightarrow> f v = k"
  shows "distinct (map f (map snd (dm_iter D m)))"
proof -
  have "map f (map snd (dm_iter D m)) = map fst (dm_iter D m)"
    using assms by (auto simp flip: dm_iter_set)
  then show ?thesis using dm_iter_distinct by metis
qed

lemma values_iff: "v \<in> set (map snd (dm_iter D m)) \<longleftrightarrow> (\<exists>k. dm_get D m k = Some v)"
  by (force simp flip: dm_iter_set)

end

lemma pubkey_eq_iff: "k = k' \<longleftrightarrow> pk_bytes k = pk_bytes k'"
  by (cases k; cases k') simp

text \<open>Both keyed adapters are this store, at two types of values.\<close>

lemma dash_keyed_store:
  assumes "dashmap D"
    and S: "S = \<lparr>sto_all = (\<lambda>m. Inr (map snd (dm_iter D m))),
      sto_get = (\<lambda>m a. ok_or (dm_get D m (pk_bytes a)) NotFound),
      sto_upsert = (\<lambda>m v. (Inr (), dm_insert D m (pk_bytes (key v)) v))\<rparr>"
  shows "keyed_store S key (dm_new D) (keyed_by key D)"
proof -
  note laws = dashmap.dm_get_new [OF assms(1)] dashmap.dm_get_insert [OF assms(1)]
  show ?thesis
  proof unfold_locales
    fix m v k
    show "keyed_by key D m \<Longrightarrow> sto_get S m k = Inr v \<Longrightarrow> key v = k"
      by (auto simp: S ok_or_iff keyed_by_def pubkey_eq_iff)
    show "keyed_by key D m \<Longrightarrow> \<exists>vs. sto_all S m = Inr vs \<and> distinct (map key vs) \<and>
        (\<forall>v. v \<in> set vs \<longleftrightarrow> sto_get S m (key v) = Inr v)"
    proof -
      assume ok: "keyed_by key D m"
      have "distinct (map (\<lambda>v. pk_bytes (key v)) (map snd (dm_iter D m)))"
        using ok by (intro dashmap.values_distinct [OF assms(1)]) (auto simp: keyed_by_def)
      then have "distinct (map pk_bytes (map key (map snd (dm_iter D m))))" by (simp add: comp_def)
      then have "distinct (map key (map snd (dm_iter D m)))"
        by (simp only: distinct_map)
      moreover have "v \<in> set (map snd (dm_iter D m)) \<longleftrightarrow> sto_get S m (key v) = Inr v" for v
        using ok dashmap.values_iff [OF assms(1), of v m] by (auto simp: S ok_or_iff keyed_by_def)
      ultimately show ?thesis by (simp add: S)
    qed
  qed (auto simp: S laws keyed_by_def ok_or_iff pubkey_eq_iff split: if_splits)
qed

locale identity_map = dashmap D for D :: "('m, 32 bytes, identity_view) dashmap"

sublocale identity_map \<subseteq>
  ids: keyed_store "InMemoryIdentityStore D" idv_address "dm_new D" "keyed_by idv_address D"
  by (intro dash_keyed_store [OF dashmap_axioms]) (simp add: InMemoryIdentityStore_def)

locale issuer_map = dashmap D for D :: "('m, 32 bytes, issuer_view) dashmap"

sublocale issuer_map \<subseteq>
  iss: keyed_store "InMemoryIssuerStore D" isv_address "dm_new D" "keyed_by isv_address D"
  by (intro dash_keyed_store [OF dashmap_axioms]) (simp add: InMemoryIssuerStore_def)

locale leaves_map = dashmap D for D :: "('m, 32 bytes, digest list) dashmap"

sublocale leaves_map \<subseteq> trees: leaf_map "InMemoryTreeStore D" "dm_new D"
  by unfold_locales
    (auto simp: InMemoryTreeStore_def dm_get_new dm_get_insert pubkey_eq_iff ok_or_iff)

text \<open>
  The library's association lists with distinct keys satisfy the contract, so the adapters
  can run on them.
\<close>

definition assoc_map :: "(('k, 'v) alist, 'k, 'v) dashmap" where
  "assoc_map =
     \<lparr>dm_new = DAList.empty, dm_get = DAList.lookup, dm_insert = (\<lambda>m k v. DAList.update k v m),
      dm_iter = DAList.impl_of\<rparr>"

interpretation assoc: dashmap assoc_map
proof unfold_locales
  fix m :: "('a, 'b) alist" and k v
  show "(k, v) \<in> set (dm_iter assoc_map m) \<longleftrightarrow> dm_get assoc_map m k = Some v"
    by (simp add: assoc_map_def DAList.lookup.rep_eq)
qed (auto simp: assoc_map_def DAList.lookup.rep_eq DAList.empty.rep_eq DAList.update.rep_eq update_conv')

interpretation assoc_ids: identity_map assoc_map ..

interpretation assoc_iss: issuer_map assoc_map ..

interpretation assoc_trees: leaves_map assoc_map ..

end
