(* ===== verification/Engine.thy ===== *)
theory Engine
  imports Stores Merkle_Offchain
begin

text \<open>
  The identity engine of the off-chain service, \<open>core/src/engine.rs\<close>, with its events
  (\<open>core/src/events.rs\<close>). The engine keeps no state of its own: it reads and writes three
  stores and publishes events. The state of the model holds the stores' states and the
  events published so far, in order; the stores' operations are a parameter. An operation
  returns its \<open>Result\<close> and the new state, or \<open>None\<close> where the code panics.

  Here every operation runs alone, from its first \<open>await\<close> to its last; interleavings are
  the subject of \<open>Engine_Races\<close>.
\<close>

section \<open>Data\<close>

datatype attestation_event =
    IdentityIndexed pubkey u32 u32
  | IssuerIndexed pubkey digest
  | TreeBuilt pubkey digest u32
  | ProofVerified pubkey bool

datatype engine_error = Port port_error | LeafOutOfRange nat

record ('i, 'j, 't) ports =
  p_identities :: "('i, identity_view) store"
  p_issuers :: "('j, issuer_view) store"
  p_trees :: "'t leaf_store"

record ('i, 'j, 't) engine =
  eg_identities :: 'i
  eg_issuers :: 'j
  eg_trees :: 't
  eg_events :: "attestation_event list"

section \<open>Operations\<close>

definition publish :: "('i, 'j, 't) engine \<Rightarrow> attestation_event \<Rightarrow> ('i, 'j, 't) engine" where
  "publish E ev = E\<lparr>eg_events := eg_events E @ [ev]\<rparr>"

definition identities_snapshot ::
    "('i, 'j, 't) ports \<Rightarrow> ('i, 'j, 't) engine \<Rightarrow> engine_error + identity_view list" where
  "identities_snapshot P E = map_err Port (sto_all (p_identities P) (eg_identities E))"

definition issuers_snapshot ::
    "('i, 'j, 't) ports \<Rightarrow> ('i, 'j, 't) engine \<Rightarrow> engine_error + issuer_view list" where
  "issuers_snapshot P E = map_err Port (sto_all (p_issuers P) (eg_issuers E))"

definition engine_identity ::
    "('i, 'j, 't) ports \<Rightarrow> ('i, 'j, 't) engine \<Rightarrow> pubkey \<Rightarrow> engine_error + identity_view" where
  "engine_identity P E address = map_err Port (sto_get (p_identities P) (eg_identities E) address)"

definition ingest_identity ::
    "('i, 'j, 't) ports \<Rightarrow> ('i, 'j, 't) engine \<Rightarrow> identity_view \<Rightarrow>
     (engine_error + unit) \<times> ('i, 'j, 't) engine" where
  "ingest_identity P E identity =
     (let ev = IdentityIndexed (idv_address identity) (of_nat (length (idv_passkeys identity)))
                 (of_nat (length (idv_attestations identity)));
          (r, ids) = sto_upsert (p_identities P) (eg_identities E) identity;
          E = E\<lparr>eg_identities := ids\<rparr>
      in case r of
           Inl e \<Rightarrow> (Inl (Port e), E)
         | Inr _ \<Rightarrow> (Inr (), publish E ev))"

definition ingest_issuer ::
    "('i, 'j, 't) ports \<Rightarrow> ('i, 'j, 't) engine \<Rightarrow> issuer_view \<Rightarrow>
     (engine_error + unit) \<times> ('i, 'j, 't) engine" where
  "ingest_issuer P E issuer =
     (let ev = IssuerIndexed (isv_address issuer) (isv_merkle_root issuer);
          (r, iss) = sto_upsert (p_issuers P) (eg_issuers E) issuer;
          E = E\<lparr>eg_issuers := iss\<rparr>
      in case r of
           Inl e \<Rightarrow> (Inl (Port e), E)
         | Inr _ \<Rightarrow> (Inr (), publish E ev))"

definition build_tree ::
    "'h keccak \<Rightarrow> ('i, 'j, 't) ports \<Rightarrow> ('i, 'j, 't) engine \<Rightarrow> pubkey \<Rightarrow> digest list \<Rightarrow>
     ((engine_error + digest) \<times> ('i, 'j, 't) engine) panicking" where
  "build_tree K P E issuer_addr leaves =
     (case sto_get (p_issuers P) (eg_issuers E) issuer_addr of
        Inl e \<Rightarrow> Some (Inl (Port e), E)
      | Inr issuer \<Rightarrow>
          (case tree_root (from_leaves K (map dg_bytes leaves)) of
             None \<Rightarrow> None
           | Some r \<Rightarrow>
               let root = Digest r;
                   (put, trees) = lst_put (p_trees P) (eg_trees E) issuer_addr leaves;
                   E = E\<lparr>eg_trees := trees\<rparr>
               in (case put of
                    Inl e \<Rightarrow> Some (Inl (Port e), E)
                  | Inr _ \<Rightarrow>
                      (let (ups, iss) = sto_upsert (p_issuers P) (eg_issuers E)
                            (issuer\<lparr>isv_merkle_root := root\<rparr>);
                          E = E\<lparr>eg_issuers := iss\<rparr>
                      in (case ups of
                           Inl e \<Rightarrow> Some (Inl (Port e), E)
                         | Inr _ \<Rightarrow>
                             Some (Inr root,
                               publish E (TreeBuilt issuer_addr root (of_nat (length leaves)))))))))"

text \<open>\<open>leaves[index]\<close> panics when the index is out of range.\<close>

definition prove ::
    "'h keccak \<Rightarrow> arith_mode \<Rightarrow> ('i, 'j, 't) ports \<Rightarrow> ('i, 'j, 't) engine \<Rightarrow> pubkey \<Rightarrow> nat \<Rightarrow>
     (engine_error + merkle_proof) panicking" where
  "prove K m P E issuer_addr index =
     (case lst_get (p_trees P) (eg_trees E) issuer_addr of
        Inl e \<Rightarrow> Some (Inl (Port e))
      | Inr leaves \<Rightarrow>
          (case tree_proof m (from_leaves K (map dg_bytes leaves)) index of
             None \<Rightarrow> None
           | Some None \<Rightarrow> Some (Inl (LeafOutOfRange index))
           | Some (Some (siblings, index_bits)) \<Rightarrow>
               (case elem_get leaves index of
                  None \<Rightarrow> None
                | Some leaf \<Rightarrow> Some (Inr \<lparr>mp_leaf = leaf, mp_siblings = map Digest siblings,
                    mp_index_bits = index_bits\<rparr>))))"

definition verify_proof ::
    "'h keccak \<Rightarrow> arith_mode \<Rightarrow> ('i, 'j, 't) ports \<Rightarrow> ('i, 'j, 't) engine \<Rightarrow> pubkey \<Rightarrow> merkle_proof \<Rightarrow>
     ((engine_error + bool) \<times> ('i, 'j, 't) engine) panicking" where
  "verify_proof K m P E issuer_addr pf =
     (case sto_get (p_issuers P) (eg_issuers E) issuer_addr of
        Inl e \<Rightarrow> Some (Inl (Port e), E)
      | Inr issuer \<Rightarrow>
          (case verify K m (dg_bytes (mp_leaf pf)) (map dg_bytes (mp_siblings pf)) (mp_index_bits pf)
                  (dg_bytes (isv_merkle_root issuer)) of
             None \<Rightarrow> None
           | Some valid \<Rightarrow> Some (Inr valid, publish E (ProofVerified issuer_addr valid))))"

text \<open>\<open>.sum()\<close> of \<open>u64\<close> values: an overflow panics where overflow checks are compiled in.\<close>

fun sum_u64 :: "arith_mode \<Rightarrow> u64 \<Rightarrow> u64 list \<Rightarrow> u64 panicking" where
  "sum_u64 m acc [] = Some acc"
| "sum_u64 m acc (x # xs) =
     (case checked_add acc x of
        Some s \<Rightarrow> sum_u64 m s xs
      | None \<Rightarrow> (case m of Checked \<Rightarrow> None | Wrapping \<Rightarrow> sum_u64 m (acc + x) xs))"

definition stats ::
    "arith_mode \<Rightarrow> ('i, 'j, 't) ports \<Rightarrow> ('i, 'j, 't) engine \<Rightarrow> (engine_error + identity_stats) panicking"
where
  "stats m P E =
     (case sto_all (p_identities P) (eg_identities E) of
        Inl e \<Rightarrow> Some (Inl (Port e))
      | Inr identities \<Rightarrow>
          (case sto_all (p_issuers P) (eg_issuers E) of
             Inl e \<Rightarrow> Some (Inl (Port e))
           | Inr issuers \<Rightarrow>
               (case sum_u64 m 0 (map (\<lambda>i. of_nat (length (idv_passkeys i))) identities) of
                  None \<Rightarrow> None
                | Some passkeys \<Rightarrow>
                    (case sum_u64 m 0 (map (\<lambda>i. of_nat (length (idv_attestations i))) identities) of
                       None \<Rightarrow> None
                     | Some attestations \<Rightarrow>
                         Some (Inr \<lparr>st_identities = of_nat (length identities),
                           st_issuers = of_nat (length issuers),
                           st_passkeys = passkeys, st_attestations = attestations\<rparr>)))))"

end
