(* ===== verification/Engine_Spec.thy ===== *)
theory Engine_Spec
  imports Engine
begin

text \<open>
  What the identity engine promises, without its stores: a service whose state is three
  maps and the list of events, with one request per engine operation that changes state or
  publishes. The engine over any healthy stores refines this service.
\<close>

section \<open>The abstract service\<close>

record service =
  sv_identities :: "pubkey \<Rightarrow> identity_view option"
  sv_issuers :: "pubkey \<Rightarrow> issuer_view option"
  sv_leaves :: "pubkey \<Rightarrow> digest list option"
  sv_events :: "attestation_event list"

datatype request =
    IngestIdentity identity_view
  | IngestIssuer issuer_view
  | BuildTree pubkey "digest list"
  | VerifyProof pubkey merkle_proof

datatype reply = Done | Root digest | Valid bool

text \<open>The root of the tree over the given leaves; the empty tree has the zero root.\<close>

definition root_of :: "'h keccak \<Rightarrow> digest list \<Rightarrow> digest" where
  "root_of K leaves =
     (if leaves = [] then digest_zero else Digest (mroot (hash_pair K) (map dg_bytes leaves)))"

fun serve ::
    "'h keccak \<Rightarrow> arith_mode \<Rightarrow> service \<Rightarrow> request \<Rightarrow> ((engine_error + reply) \<times> service) panicking"
where
  "serve K m V (IngestIdentity v) =
     Some (Inr Done, V\<lparr>sv_identities := (sv_identities V)(idv_address v \<mapsto> v),
       sv_events := sv_events V @ [IdentityIndexed (idv_address v)
         (of_nat (length (idv_passkeys v))) (of_nat (length (idv_attestations v)))]\<rparr>)"
| "serve K m V (IngestIssuer v) =
     Some (Inr Done, V\<lparr>sv_issuers := (sv_issuers V)(isv_address v \<mapsto> v),
       sv_events := sv_events V @ [IssuerIndexed (isv_address v) (isv_merkle_root v)]\<rparr>)"
| "serve K m V (BuildTree a leaves) =
     (case sv_issuers V a of
        None \<Rightarrow> Some (Inl (Port NotFound), V)
      | Some v \<Rightarrow> Some (Inr (Root (root_of K leaves)),
          V\<lparr>sv_issuers := (sv_issuers V)(a \<mapsto> v\<lparr>isv_merkle_root := root_of K leaves\<rparr>),
            sv_leaves := (sv_leaves V)(a \<mapsto> leaves),
            sv_events := sv_events V @ [TreeBuilt a (root_of K leaves) (of_nat (length leaves))]\<rparr>))"
| "serve K m V (VerifyProof a pf) =
     (case sv_issuers V a of
        None \<Rightarrow> Some (Inl (Port NotFound), V)
      | Some v \<Rightarrow> map_option (\<lambda>valid. (Inr (Valid valid),
            V\<lparr>sv_events := sv_events V @ [ProofVerified a valid]\<rparr>))
          (verify K m (dg_bytes (mp_leaf pf)) (map dg_bytes (mp_siblings pf)) (mp_index_bits pf)
            (dg_bytes (isv_merkle_root v))))"

section \<open>The engine as a server of requests\<close>

definition reply_as :: "('a \<Rightarrow> reply) \<Rightarrow> (engine_error + 'a) \<times> 'e \<Rightarrow> (engine_error + reply) \<times> 'e" where
  "reply_as f r = (map_sum id f (fst r), snd r)"

fun run_request ::
    "'h keccak \<Rightarrow> arith_mode \<Rightarrow> ('i, 'j, 't) ports \<Rightarrow> ('i, 'j, 't) engine \<Rightarrow> request \<Rightarrow>
     ((engine_error + reply) \<times> ('i, 'j, 't) engine) panicking"
where
  "run_request K m P E (IngestIdentity v) = Some (reply_as (\<lambda>_. Done) (ingest_identity P E v))"
| "run_request K m P E (IngestIssuer v) = Some (reply_as (\<lambda>_. Done) (ingest_issuer P E v))"
| "run_request K m P E (BuildTree a leaves) = map_option (reply_as Root) (build_tree K P E a leaves)"
| "run_request K m P E (VerifyProof a pf) = map_option (reply_as Valid) (verify_proof K m P E a pf)"

text \<open>The service that an engine state stands for.\<close>

definition service_of :: "('i, 'j, 't) ports \<Rightarrow> ('i, 'j, 't) engine \<Rightarrow> service" where
  "service_of P E =
     \<lparr>sv_identities = store_map (p_identities P) (eg_identities E),
      sv_issuers = store_map (p_issuers P) (eg_issuers E),
      sv_leaves = leaf_lookup (p_trees P) (eg_trees E),
      sv_events = eg_events E\<rparr>"

section \<open>Healthy ports\<close>

text \<open>The engine's view of its ports: three stores that keep their contracts.\<close>

locale engine_ports =
  ids: keyed_store "p_identities P" idv_address ids0 ids_ok +
  iss: keyed_store "p_issuers P" isv_address iss0 iss_ok +
  trees: leaf_map "p_trees P" trees0
  for P :: "('i, 'j, 't) ports" and ids0 ids_ok iss0 iss_ok trees0
begin

definition engine_ok :: "('i, 'j, 't) engine \<Rightarrow> bool" where
  "engine_ok E \<longleftrightarrow> ids_ok (eg_identities E) \<and> iss_ok (eg_issuers E)"

lemma tree_root_digests:
  "tree_root (from_leaves K (map dg_bytes leaves)) = Some (dg_bytes (root_of K leaves))"
  by (cases leaves) (simp_all add: root_of_def tree_root_empty tree_root_from_leaves digest_zero_def)

lemma ingest_identity_eq:
  "ingest_identity P E v = (Inr (), publish
     (E\<lparr>eg_identities := snd (sto_upsert (p_identities P) (eg_identities E) v)\<rparr>)
     (IdentityIndexed (idv_address v) (of_nat (length (idv_passkeys v)))
       (of_nat (length (idv_attestations v)))))"
  by (simp add: ingest_identity_def Let_def ids.upsert_case)

lemma ingest_issuer_eq:
  "ingest_issuer P E v = (Inr (), publish
     (E\<lparr>eg_issuers := snd (sto_upsert (p_issuers P) (eg_issuers E) v)\<rparr>)
     (IssuerIndexed (isv_address v) (isv_merkle_root v)))"
  by (simp add: ingest_issuer_def Let_def iss.upsert_case)

lemma build_tree_eq:
  "build_tree K P E a leaves =
     (case store_map (p_issuers P) (eg_issuers E) a of
        None \<Rightarrow> Some (Inl (Port NotFound), E)
      | Some v \<Rightarrow> Some (Inr (root_of K leaves), publish
          (E\<lparr>eg_trees := snd (lst_put (p_trees P) (eg_trees E) a leaves),
             eg_issuers := snd (sto_upsert (p_issuers P) (eg_issuers E)
               (v\<lparr>isv_merkle_root := root_of K leaves\<rparr>))\<rparr>)
          (TreeBuilt a (root_of K leaves) (of_nat (length leaves)))))"
  by (cases "store_map (p_issuers P) (eg_issuers E) a")
    (simp_all add: build_tree_def iss.get_content tree_root_digests Let_def
      trees.put_case iss.upsert_case)

lemma refines:
  assumes "engine_ok E"
  shows "map_option (\<lambda>(r, E'). (r, service_of P E')) (run_request K m P E req) =
      serve K m (service_of P E) req"
  using assms
proof (cases req)
  case (VerifyProof a pf)
  then show ?thesis
    by (auto simp: verify_proof_def iss.get_content service_of_def publish_def reply_as_def
        ok_or_def option.map_comp comp_def split: option.splits)
next
  case (BuildTree a leaves)
  with assms show ?thesis
    using iss.content_key [of "eg_issuers E" a]
    by (auto simp: build_tree_eq service_of_def publish_def reply_as_def engine_ok_def
        iss.content_upsert trees.leaf_lookup_put split: option.splits)
qed (simp_all add: ingest_identity_eq ingest_issuer_eq service_of_def publish_def reply_as_def
    engine_ok_def ids.content_upsert iss.content_upsert)

lemma keeps_ok:
  assumes "engine_ok E" and "run_request K m P E req = Some (r, E')"
  shows "engine_ok E'"
  using assms
  by (cases req)
    (auto simp: ingest_identity_eq ingest_issuer_eq build_tree_eq verify_proof_def publish_def
      reply_as_def engine_ok_def intro: ids.ok_upsert iss.ok_upsert split: option.splits sum.splits)

end

end
