(* ===== verification/Engine_Runs.thy ===== *)
theory Engine_Runs
  imports Engine_Spec
begin

text \<open>
  Runs of the identity engine: sequences of requests, the ports the engine is assembled
  with, and the properties of the engine over healthy ports.
\<close>

section \<open>The ports of the program\<close>

text \<open>The vector stores of the engine's tests, and the adapters the node wires together.\<close>

definition test_ports ::
    "(identity_view list, issuer_view list, (pubkey \<times> digest list) list) ports" where
  "test_ports = \<lparr>p_identities = MemIdentities, p_issuers = MemIssuers, p_trees = MemTrees\<rparr>"

definition node_ports ::
    "('i, 32 bytes, identity_view) dashmap \<Rightarrow> ('j, 32 bytes, issuer_view) dashmap \<Rightarrow>
     ('t, 32 bytes, digest list) dashmap \<Rightarrow> ('i, 'j, 't) ports" where
  "node_ports Di Dj Dt =
     \<lparr>p_identities = InMemoryIdentityStore Di, p_issuers = InMemoryIssuerStore Dj,
      p_trees = InMemoryTreeStore Dt\<rparr>"

interpretation test: engine_ports test_ports "[]" "\<lambda>g. distinct (map idv_address g)"
    "[]" "\<lambda>g. distinct (map isv_address g)" "[]"
  unfolding engine_ports_def test_ports_def MemIdentities_def MemIssuers_def
  by (simp add: vec.keyed_store_axioms mem_trees.leaf_map_axioms)

context identity_map begin

lemma healthy: "keyed_store (InMemoryIdentityStore D) idv_address (dm_new D) (keyed_by idv_address D)"
  by (rule ids.keyed_store_axioms)

end

context issuer_map begin

lemma healthy: "keyed_store (InMemoryIssuerStore D) isv_address (dm_new D) (keyed_by isv_address D)"
  by (rule iss.keyed_store_axioms)

end

context leaves_map begin

lemma healthy: "leaf_map (InMemoryTreeStore D) (dm_new D)"
  by (rule trees.leaf_map_axioms)

end

lemma node_engine_ports:
  assumes "identity_map Di" and "issuer_map Dj" and "leaves_map Dt"
  shows "engine_ports (node_ports Di Dj Dt) (dm_new Di) (keyed_by idv_address Di)
    (dm_new Dj) (keyed_by isv_address Dj) (dm_new Dt)"
  unfolding engine_ports_def node_ports_def
  by (simp add: identity_map.healthy [OF assms(1)] issuer_map.healthy [OF assms(2)]
      leaves_map.healthy [OF assms(3)])

interpretation node: engine_ports "node_ports assoc_map assoc_map assoc_map"
    "dm_new assoc_map" "keyed_by idv_address assoc_map"
    "dm_new assoc_map" "keyed_by isv_address assoc_map" "dm_new assoc_map"
  by (intro node_engine_ports assoc_ids.identity_map_axioms assoc_iss.issuer_map_axioms
      assoc_trees.leaves_map_axioms)

section \<open>Sequences of requests\<close>

fun run_requests ::
    "'h keccak \<Rightarrow> arith_mode \<Rightarrow> ('i, 'j, 't) ports \<Rightarrow> ('i, 'j, 't) engine \<Rightarrow> request list \<Rightarrow>
     ((engine_error + reply) list \<times> ('i, 'j, 't) engine) panicking"
where
  "run_requests K m P E [] = Some ([], E)"
| "run_requests K m P E (r # rs) =
     (case run_request K m P E r of
        None \<Rightarrow> None
      | Some (x, E') \<Rightarrow> map_option (\<lambda>(xs, E''). (x # xs, E'')) (run_requests K m P E' rs))"

fun serve_all ::
    "'h keccak \<Rightarrow> arith_mode \<Rightarrow> service \<Rightarrow> request list \<Rightarrow>
     ((engine_error + reply) list \<times> service) panicking"
where
  "serve_all K m V [] = Some ([], V)"
| "serve_all K m V (r # rs) =
     (case serve K m V r of
        None \<Rightarrow> None
      | Some (x, V') \<Rightarrow> map_option (\<lambda>(xs, V''). (x # xs, V'')) (serve_all K m V' rs))"

definition empty_engine :: "'i \<Rightarrow> 'j \<Rightarrow> 't \<Rightarrow> ('i, 'j, 't) engine" where
  "empty_engine ids0 iss0 trees0 =
     \<lparr>eg_identities = ids0, eg_issuers = iss0, eg_trees = trees0, eg_events = []\<rparr>"

definition empty_service :: service where
  "empty_service = \<lparr>sv_identities = Map.empty, sv_issuers = Map.empty, sv_leaves = Map.empty, sv_events = []\<rparr>"

context engine_ports begin

lemma runs_refine:
  assumes "engine_ok E"
  shows "map_option (\<lambda>(xs, E'). (xs, service_of P E')) (run_requests K m P E rs) =
    serve_all K m (service_of P E) rs"
  using assms
proof (induction rs arbitrary: E)
  case Nil
  then show ?case by simp
next
  case (Cons r rs)
  show ?case
  proof (cases "run_request K m P E r")
    case None
    then show ?thesis using refines [OF Cons.prems, of K m r] by simp
  next
    case (Some p)
    obtain x E' where p: "p = (x, E')" by (cases p)
    with Some have "engine_ok E'" using keeps_ok [OF Cons.prems] by blast
    then show ?thesis
      using Cons.IH [of E', symmetric] refines [OF Cons.prems, of K m r, symmetric] Some p
      by (cases "run_requests K m P E' rs") (auto simp del: run_request.simps serve.simps)
  qed
qed

lemma runs_ok: "engine_ok E \<Longrightarrow> run_requests K m P E rs = Some (xs, E') \<Longrightarrow> engine_ok E'"
proof (induction rs arbitrary: E xs)
  case (Cons r rs)
  then obtain x E1 xs' where "run_request K m P E r = Some (x, E1)"
    and "run_requests K m P E1 rs = Some (xs', E')"
    by (auto split: option.splits prod.splits simp del: run_request.simps)
  with Cons show ?case using keeps_ok by blast
qed simp

lemma empty_ok: "engine_ok (empty_engine ids0 iss0 trees0)"
  by (simp add: engine_ok_def empty_engine_def ids.ok_empty iss.ok_empty)

lemma service_of_empty: "service_of P (empty_engine ids0 iss0 trees0) = empty_service"
  using ids.content_empty iss.content_empty
  by (auto simp: service_of_def empty_engine_def empty_service_def leaf_lookup_def trees.leaves_empty)

end

section \<open>Coherent issuers\<close>

text \<open>An issuer's root is the root of the leaves that are stored for it.\<close>

definition coherent :: "'h keccak \<Rightarrow> service \<Rightarrow> pubkey \<Rightarrow> digest list \<Rightarrow> bool" where
  "coherent K V a leaves \<longleftrightarrow> sv_leaves V a = Some leaves \<and>
     (\<exists>v. sv_issuers V a = Some v \<and> isv_merkle_root v = root_of K leaves)"

text \<open>The requests that touch an issuer's root or leaves.\<close>

fun touches :: "pubkey \<Rightarrow> request \<Rightarrow> bool" where
  "touches a (IngestIssuer v) \<longleftrightarrow> isv_address v = a"
| "touches a (BuildTree b _) \<longleftrightarrow> b = a"
| "touches a _ \<longleftrightarrow> False"

lemma serve_coherent:
  "serve K m V r = Some (x, V') \<Longrightarrow> \<not> touches a r \<Longrightarrow> coherent K V a leaves \<Longrightarrow> coherent K V' a leaves"
  by (cases r) (auto simp: coherent_def split: option.splits)

lemma serve_all_coherent:
  "serve_all K m V rs = Some (xs, V') \<Longrightarrow> list_all (\<lambda>r. \<not> touches a r) rs \<Longrightarrow>
     coherent K V a leaves \<Longrightarrow> coherent K V' a leaves"
proof (induction rs arbitrary: V xs)
  case (Cons r rs)
  then obtain x V1 xs' where step: "serve K m V r = Some (x, V1)" and "serve_all K m V1 rs = Some (xs', V')"
    by (auto split: option.splits prod.splits simp del: serve.simps)
  moreover have "coherent K V1 a leaves"
    using step Cons.prems by (intro serve_coherent [OF step]) simp_all
  ultimately show ?case using Cons by simp
qed simp

context engine_ports begin

lemma build_coherent:
  assumes "engine_ok E" and "build_tree K P E a leaves = Some (Inr root, E')"
  shows "engine_ok E'" and "coherent K (service_of P E') a leaves" and "root = root_of K leaves"
proof -
  obtain v where v: "store_map (p_issuers P) (eg_issuers E) a = Some v"
    using assms(2) by (cases "store_map (p_issuers P) (eg_issuers E) a") (simp_all add: build_tree_eq)
  with assms(2) have root: "root = root_of K leaves"
    and E': "E' = publish
          (E\<lparr>eg_trees := snd (lst_put (p_trees P) (eg_trees E) a leaves),
             eg_issuers := snd (sto_upsert (p_issuers P) (eg_issuers E)
               (v\<lparr>isv_merkle_root := root_of K leaves\<rparr>))\<rparr>)
          (TreeBuilt a (root_of K leaves) (of_nat (length leaves)))"
    by (simp_all add: build_tree_eq, metis)
  have "isv_address v = a"
    using assms(1) v by (auto simp: engine_ok_def intro: iss.content_key)
  then show "coherent K (service_of P E') a leaves"
    using assms(1) by (simp add: E' coherent_def service_of_def publish_def engine_ok_def
        iss.content_upsert trees.leaf_lookup_put)
  show "engine_ok E'"
    using assms(1) by (simp add: E' engine_ok_def publish_def iss.ok_upsert)
  show "root = root_of K leaves" by (rule root)
qed

lemma runs_coherent:
  assumes "engine_ok E" and "coherent K (service_of P E) a leaves"
    and "run_requests K m P E rs = Some (xs, E')" and "list_all (\<lambda>r. \<not> touches a r) rs"
  shows "coherent K (service_of P E') a leaves"
proof (rule serve_all_coherent [OF _ assms(4,2)])
  show "serve_all K m (service_of P E) rs = Some (xs, service_of P E')"
    unfolding runs_refine [OF assms(1), symmetric] assms(3) by simp
qed

text \<open>
  The result of \<open>prove\<close> on every branch. For an issuer with no leaves stored as the empty
  list, index 0 is in the range of the tree but not of the list.
\<close>

lemma prove_eq:
  assumes "\<And>leaves. leaf_lookup (p_trees P) (eg_trees E) a = Some leaves \<Longrightarrow> length leaves \<le> 2 ^ 64"
  shows "prove K m P E a index =
    (case leaf_lookup (p_trees P) (eg_trees E) a of
       None \<Rightarrow> Some (Inl (Port NotFound))
     | Some leaves \<Rightarrow>
         if index < length leaves then Some (Inr \<lparr>mp_leaf = leaves ! index,
           mp_siblings = map Digest (auth_path (hash_pair K) (map dg_bytes leaves) index),
           mp_index_bits = of_nat index\<rparr>)
         else if leaves = [] \<and> index = 0 then None
         else Some (Inl (LeafOutOfRange index)))"
proof (cases "leaf_lookup (p_trees P) (eg_trees E) a")
  case None
  then show ?thesis by (simp add: prove_def trees.leaves_content)
next
  case (Some leaves)
  note le = assms [OF Some]
  show ?thesis
  proof (cases "index < length leaves")
    case True
    then show ?thesis
      using Some le tree_proof_from_leaves [of index "map dg_bytes leaves" m K]
      by (simp add: prove_def trees.leaves_content elem_get_def)
  next
    case False
    then show ?thesis
      using Some tree_proof_out [of "map dg_bytes leaves" index m K]
      by (cases leaves; cases index)
        (simp_all add: prove_def trees.leaves_content elem_get_def tree_proof_nil)
  qed
qed

text \<open>A proof for a coherent issuer verifies, and what verifies at full depth is a leaf.\<close>

lemma coherent_verify:
  assumes "coherent K (service_of P E) a leaves"
  obtains v where "sto_get (p_issuers P) (eg_issuers E) a = Inr v"
    and "isv_merkle_root v = root_of K leaves"
    and "leaf_lookup (p_trees P) (eg_trees E) a = Some leaves"
  using assms by (auto simp: coherent_def service_of_def iss.get_content)

lemma dg_bytes_map_Digest [simp]: "map dg_bytes (map Digest xs) = xs"
  by (simp add: comp_def)

lemma coherent_prove:
  assumes "coherent K (service_of P E) a leaves" and "i < length leaves" and "length leaves \<le> 2 ^ 64"
  shows "\<exists>pf. prove K m P E a i = Some (Inr pf) \<and> mp_leaf pf = leaves ! i \<and>
    verify_proof K m' P E a pf = Some (Inr True, publish E (ProofVerified a True))"
proof -
  let ?hs = "map dg_bytes leaves"
  obtain v where v: "sto_get (p_issuers P) (eg_issuers E) a = Inr v" "isv_merkle_root v = root_of K leaves"
    and l: "leaf_lookup (p_trees P) (eg_trees E) a = Some leaves"
    using assms(1) by (rule coherent_verify)
  from assms have ne: "leaves \<noteq> []" "0 < length ?hs" by auto
  with assms(3) have "length (auth_path (hash_pair K) ?hs i) \<le> 64"
    by (simp add: length_auth_path tree_depth_le_iff)
  then have "verify K m' (?hs ! i) (auth_path (hash_pair K) ?hs i) (of_nat i) (mroot (hash_pair K) ?hs) = Some True"
    using fold_auth_path_bits [of i ?hs "hash_pair K"] assms by (simp add: off.vfy_iff)
  then have "verify_proof K m' P E a \<lparr>mp_leaf = leaves ! i,
      mp_siblings = map Digest (auth_path (hash_pair K) ?hs i), mp_index_bits = of_nat i\<rparr> =
      Some (Inr True, publish E (ProofVerified a True))"
    using v ne assms(2) by (simp add: verify_proof_def root_of_def comp_def)
  moreover have "prove K m P E a i = Some (Inr \<lparr>mp_leaf = leaves ! i,
      mp_siblings = map Digest (auth_path (hash_pair K) ?hs i), mp_index_bits = of_nat i\<rparr>)"
    using prove_eq [of E a K m i] l assms by simp
  ultimately show ?thesis by auto
qed

end

end
