(* ===== verification/Simulator.thy ===== *)
theory Simulator
  imports Engine_Runs
begin

text \<open>
  The data source that the node runs on, \<open>SimDataSource\<close> of \<open>infra/src/lib.rs\<close>: it mints
  one identity and one issuer on every poll. Its issuer also serves as the concrete run of
  the engine on which the properties are exercised.
\<close>

section \<open>The simulator\<close>

definition demo_identity :: identity_view where
  "demo_identity =
     \<lparr>idv_address = Pubkey (arr_fill 0xCD), idv_owner = Pubkey (arr_fill 0x11),
      idv_passkeys = [\<lparr>pkv_pubkey_hex = ''02'' @ concat (replicate 32 ''ab''),
        pkv_label = ''yubikey-5c'', pkv_added_ts = 1700000000\<rparr>],
      idv_attestations = [\<lparr>atv_issuer = Pubkey (arr_fill 0xEE), atv_schema_id = Digest (arr_fill 0x07),
        atv_claimed_ts = 1700000100\<rparr>]\<rparr>"

definition demo_issuer :: issuer_view where
  "demo_issuer =
     \<lparr>isv_address = Pubkey (arr_fill 0xEE), isv_authority = Pubkey (arr_fill 0x22),
      isv_schema_id = Digest (arr_fill 0x07), isv_merkle_root = digest_zero,
      isv_attestation_count = 1\<rparr>"

definition sim_poll_identities :: "port_error + identity_view list" where
  "sim_poll_identities = Inr [demo_identity]"

definition sim_poll_issuers :: "port_error + issuer_view list" where
  "sim_poll_issuers = Inr [demo_issuer]"

section \<open>A concrete run of the engine\<close>

text \<open>The simulator's issuer is ingested and a tree over two leaves is built for it.\<close>

definition demo_leaves :: "digest list" where
  "demo_leaves = [Digest (arr_fill 3), Digest (arr_fill 4)]"

definition demo_E1 :: "(identity_view list, issuer_view list, (pubkey \<times> digest list) list) engine" where
  "demo_E1 = \<lparr>eg_identities = [], eg_issuers = [demo_issuer], eg_trees = [],
     eg_events = [IssuerIndexed (isv_address demo_issuer) digest_zero]\<rparr>"

definition demo_E2 :: "(identity_view list, issuer_view list, (pubkey \<times> digest list) list) engine" where
  "demo_E2 = \<lparr>eg_identities = [],
     eg_issuers = [demo_issuer\<lparr>isv_merkle_root := Digest (arr_fill 3)\<rparr>],
     eg_trees = [(isv_address demo_issuer, demo_leaves)],
     eg_events = [IssuerIndexed (isv_address demo_issuer) digest_zero,
       TreeBuilt (isv_address demo_issuer) (Digest (arr_fill 3)) 2]\<rparr>"

lemma demo_issuer_fields [simp]:
  "isv_address demo_issuer = Pubkey (arr_fill 0xEE)" "isv_merkle_root demo_issuer = digest_zero"
  by (simp_all add: demo_issuer_def)

lemma demo_ingest:
  "run_requests trunc_keccak Checked test_ports (empty_engine [] [] []) [IngestIssuer demo_issuer] =
     Some ([Inr Done], demo_E1)"
  by (simp add: ingest_issuer_def test_ports_def MemIssuers_def vec_store_def reply_as_def
      empty_engine_def publish_def demo_E1_def)

lemma demo_root: "root_of trunc_keccak demo_leaves = Digest (arr_fill 3)"
  by (simp add: root_of_def demo_leaves_def mroot.simps)

lemma demo_build:
  "build_tree trunc_keccak test_ports demo_E1 (Pubkey (arr_fill 0xEE)) demo_leaves =
     Some (Inr (Digest (arr_fill 3)), demo_E2)"
proof -
  have "store_map (p_issuers test_ports) (eg_issuers demo_E1) (Pubkey (arr_fill 0xEE)) = Some demo_issuer"
    by (simp add: store_map_def test_ports_def MemIssuers_def vec_store_def demo_E1_def)
  then show ?thesis
    by (simp add: test.build_tree_eq demo_root)
      (simp add: test_ports_def MemIssuers_def MemTrees_def vec_store_def publish_def demo_E1_def
        demo_E2_def demo_leaves_def)
qed

end
