(* ===== verification/Engine_Props.thy ===== *)
theory Engine_Props
  imports Simulator
begin

text \<open>
  The properties of the identity engine: over any healthy ports it refines the abstract
  service, the proofs it mints verify until the issuer is touched again, what it verifies
  is a leaf, and its errors and events are those of the code on every branch.
\<close>

section \<open>Events and errors, over any ports\<close>

text \<open>The event of a request, when it succeeds.\<close>

fun event_matches :: "request \<Rightarrow> attestation_event \<Rightarrow> bool" where
  "event_matches (IngestIdentity v) ev \<longleftrightarrow> ev = IdentityIndexed (idv_address v)
     (of_nat (length (idv_passkeys v))) (of_nat (length (idv_attestations v)))"
| "event_matches (IngestIssuer v) ev \<longleftrightarrow> ev = IssuerIndexed (isv_address v) (isv_merkle_root v)"
| "event_matches (BuildTree a leaves) ev \<longleftrightarrow> (\<exists>root. ev = TreeBuilt a root (of_nat (length leaves)))"
| "event_matches (VerifyProof a pf) ev \<longleftrightarrow> (\<exists>valid. ev = ProofVerified a valid)"

lemma publish_events [simp]: "eg_events (publish E ev) = eg_events E @ [ev]"
  by (simp add: publish_def)

section \<open>Sums of counters\<close>

lemma sum_u64_exact:
  "unat acc + (\<Sum>x \<leftarrow> xs. unat x) < 2 ^ 64 \<Longrightarrow>
     \<exists>s. sum_u64 m acc xs = Some s \<and> unat s = unat acc + (\<Sum>x \<leftarrow> xs. unat x)"
proof (induction xs arbitrary: acc)
  case Nil
  then show ?case by simp
next
  case (Cons x xs)
  then have "unat acc + unat x < 2 ^ 64" by simp
  then have add: "checked_add acc x = Some (acc + x)" by (simp add: checked_add_def)
  with checked_add_unat [OF this] Cons.prems Cons.IH [of "acc + x"] show ?case
    by (simp add: add.assoc)
qed

text \<open>Lengths that sum up below the bound are represented exactly.\<close>

lemma sum_lengths_exact:
  assumes "(\<Sum>x \<leftarrow> xs. f x) < 2 ^ 64"
  shows "\<exists>s. sum_u64 m 0 (map (\<lambda>x. of_nat (f x)) xs) = Some s \<and> unat s = (\<Sum>x \<leftarrow> xs. f x)"
proof -
  have "f x < 2 ^ 64" if "x \<in> set xs" for x
    using le_less_trans [OF member_le_sum_list [of "f x" "map f xs"] assms] that by simp
  then have "map (\<lambda>x. unat (of_nat (f x) :: u64)) xs = map f xs"
    by (auto simp: unat_of_nat)
  then have "(\<Sum>x \<leftarrow> map (\<lambda>x. of_nat (f x) :: u64) xs. unat x) = (\<Sum>x \<leftarrow> xs. f x)"
    by (simp only: map_map comp_def)
  with assms sum_u64_exact [of 0 "map (\<lambda>x. of_nat (f x)) xs" m] show ?thesis by simp
qed

context engine_ports begin

lemma verified_sound:
  assumes "coherent K (service_of P E) a leaves" and "leaves \<noteq> []" and "length leaves \<le> 2 ^ 64"
    and "verify_proof K m P E a pf = Some (Inr True, E')"
    and "length (mp_siblings pf) = tree_depth (length leaves)"
  shows "mp_leaf pf \<in> set leaves \<or>
    (\<exists>p q. p \<in> set (path_pairs (hash_pair K) (bit (mp_index_bits pf)) 0 (dg_bytes (mp_leaf pf))
                     (map dg_bytes (mp_siblings pf))) \<and>
      q \<in> set (tree_pairs (hash_pair K) (map dg_bytes leaves)) \<and> colliding (hash_pair K) p q)"
proof -
  obtain v where v: "sto_get (p_issuers P) (eg_issuers E) a = Inr v" "isv_merkle_root v = root_of K leaves"
    using assms(1) by (rule coherent_verify)
  have "length (mp_siblings pf) \<le> 64"
    using assms(2,3,5) by (simp add: tree_depth_le_iff)
  with assms(2,4) v have "fold_path (hash_pair K) (bit (mp_index_bits pf)) 0 (dg_bytes (mp_leaf pf))
      (map dg_bytes (mp_siblings pf)) = mroot (hash_pair K) (map dg_bytes leaves)"
    by (auto simp: verify_proof_def off.vfy_iff root_of_def)
  then have "dg_bytes (mp_leaf pf) \<in> set (map dg_bytes leaves) \<or>
    (\<exists>p q. p \<in> set (path_pairs (hash_pair K) (bit (mp_index_bits pf)) 0 (dg_bytes (mp_leaf pf))
                     (map dg_bytes (mp_siblings pf))) \<and>
      q \<in> set (tree_pairs (hash_pair K) (map dg_bytes leaves)) \<and> colliding (hash_pair K) p q)"
    using assms(2,5) by (intro fold_path_sound) simp_all
  then show ?thesis by (auto dest: digest.expand)
qed

text \<open>Storing an issuer with another root makes every proof of its tree fail.\<close>

lemma reingest_fails:
  assumes "engine_ok E" and "coherent K (service_of P E) a leaves"
    and "i < length leaves" and "length leaves \<le> 2 ^ 64"
    and "isv_address v = a" and "isv_merkle_root v \<noteq> root_of K leaves"
  shows "\<exists>pf E'. prove K m P (snd (ingest_issuer P E v)) a i = Some (Inr pf) \<and>
    mp_leaf pf = leaves ! i \<and>
    verify_proof K m P (snd (ingest_issuer P E v)) a pf = Some (Inr False, E')"
proof -
  let ?E = "snd (ingest_issuer P E v)"
  obtain pf where pf: "prove K m P E a i = Some (Inr pf)" "mp_leaf pf = leaves ! i"
    "verify_proof K m P E a pf = Some (Inr True, publish E (ProofVerified a True))"
    using coherent_prove [OF assms(2-4)] by blast
  obtain w where w: "sto_get (p_issuers P) (eg_issuers E) a = Inr w" "isv_merkle_root w = root_of K leaves"
    using assms(2) by (rule coherent_verify)
  obtain r where r: "compute_root K m (dg_bytes (mp_leaf pf)) (map dg_bytes (mp_siblings pf))
      (mp_index_bits pf) = Some r" "r = dg_bytes (root_of K leaves)"
    using pf(3) w by (auto simp: verify_proof_def verify_def split: option.splits)
  have "sto_get (p_issuers P) (eg_issuers ?E) a = Inr v"
    using assms(1,5) by (simp add: ingest_issuer_eq publish_def engine_ok_def iss.get_upsert)
  moreover have "dg_bytes (root_of K leaves) \<noteq> dg_bytes (isv_merkle_root v)"
    using assms(6) digest.expand by metis
  ultimately have "verify_proof K m P ?E a pf = Some (Inr False, publish ?E (ProofVerified a False))"
    using r by (simp add: verify_proof_def verify_def)
  moreover have "prove K m P ?E a i = Some (Inr pf)"
    using pf(1) by (simp add: ingest_issuer_eq publish_def prove_def)
  ultimately show ?thesis using pf(2) by blast
qed

lemma stats_exact:
  assumes "engine_ok E"
    and "(\<Sum>a \<in> dom (store_map (p_identities P) (eg_identities E)). length (idv_passkeys (the (store_map (p_identities P) (eg_identities E) a)))) < 2 ^ 64"
    and "(\<Sum>a \<in> dom (store_map (p_identities P) (eg_identities E)). length (idv_attestations (the (store_map (p_identities P) (eg_identities E) a)))) < 2 ^ 64"
  shows "\<exists>s. stats m P E = Some (Inr s) \<and>
    st_identities s = of_nat (card (dom (store_map (p_identities P) (eg_identities E)))) \<and>
    st_issuers s = of_nat (card (dom (store_map (p_issuers P) (eg_issuers E)))) \<and>
    unat (st_passkeys s) = (\<Sum>a \<in> dom (store_map (p_identities P) (eg_identities E)). length (idv_passkeys (the (store_map (p_identities P) (eg_identities E) a)))) \<and>
    unat (st_attestations s) = (\<Sum>a \<in> dom (store_map (p_identities P) (eg_identities E)). length (idv_attestations (the (store_map (p_identities P) (eg_identities E) a))))"
proof -
  let ?ids = "store_map (p_identities P) (eg_identities E)"
  have ok: "ids_ok (eg_identities E)" "iss_ok (eg_issuers E)"
    using assms(1) by (simp_all add: engine_ok_def)
  obtain vs where vs: "sto_all (p_identities P) (eg_identities E) = Inr vs"
    "distinct (map idv_address vs)" "set vs = ran ?ids" "length vs = card (dom ?ids)"
    using ok(1) by (rule ids.all_content)
  obtain ws where ws: "sto_all (p_issuers P) (eg_issuers E) = Inr ws"
    "length ws = card (dom (store_map (p_issuers P) (eg_issuers E)))"
    using ok(2) by (rule iss.all_content)
  have total: "(\<Sum>v \<leftarrow> vs. f v) = (\<Sum>a \<in> dom ?ids. f (the (?ids a)))" for f :: "identity_view \<Rightarrow> nat"
  proof -
    have the_addr: "v \<in> ran ?ids \<Longrightarrow> ?ids (idv_address v) = Some v" for v
      using ids.content_key [OF ok(1)] by (auto simp: ran_def)
    have "(\<Sum>v \<leftarrow> vs. f v) = (\<Sum>v \<in> set vs. f v)"
      using vs(2) by (simp add: sum_list_distinct_conv_sum_set distinct_map)
    also have "\<dots> = (\<Sum>a \<in> dom ?ids. f (the (?ids a)))"
      using the_addr ids.content_key [OF ok(1)] unfolding vs(3)
      by (intro sum.reindex_bij_witness [of _ "\<lambda>a. the (?ids a)" idv_address])
        (auto simp: ran_def dom_def)
    finally show ?thesis .
  qed
  show ?thesis
    using sum_lengths_exact [of "\<lambda>v. length (idv_passkeys v)" vs m]
      sum_lengths_exact [of "\<lambda>v. length (idv_attestations v)" vs m] assms(2,3)
    by (auto simp: stats_def vs(1,4) ws total)
qed

end

section \<open>Properties\<close>

text \<open>
  C9 Refinement: from the empty state, any sequence of requests to the engine over healthy
  ports gives the replies, the stored views and leaves, the events and the panics of the
  abstract service.
\<close>

theorem engine_refines_service:
  assumes "engine_ports P ids0 ids_ok iss0 iss_ok trees0"
  shows "map_option (\<lambda>(replies, E). (replies, service_of P E))
      (run_requests K m P (empty_engine ids0 iss0 trees0) rs) = serve_all K m empty_service rs"
  using engine_ports.runs_refine [OF assms engine_ports.empty_ok [OF assms]]
  by (simp add: engine_ports.service_of_empty [OF assms])

theorem engine_refines_service_witness:
  "map_option (\<lambda>(replies, E). (replies, service_of test_ports E))
      (run_requests trunc_keccak Checked test_ports (empty_engine [] [] [])
        [BuildTree (Pubkey (arr_fill 5)) []]) =
    Some ([Inl (Port NotFound)], empty_service)"
  using engine_refines_service [OF test.engine_ports_axioms, of trunc_keccak Checked
      "[BuildTree (Pubkey (arr_fill 5)) []]"]
  by (simp add: empty_service_def)

text \<open>
  C10 Proofs stay valid: after any run, build the tree of an issuer and then serve any
  requests that do not touch that issuer; for every index of a leaf \<open>prove\<close> returns a proof
  of that leaf and \<open>verify_proof\<close> accepts it.
\<close>

theorem built_proofs_verify:
  assumes "engine_ports P ids0 ids_ok iss0 iss_ok trees0"
    and "run_requests K m P (empty_engine ids0 iss0 trees0) before = Some (xs, E)"
    and "build_tree K P E a leaves = Some (Inr root, E1)"
    and "run_requests K m P E1 after = Some (ys, E2)" and "list_all (\<lambda>r. \<not> touches a r) after"
    and "i < length leaves" and "length leaves \<le> 2 ^ 64"
  shows "\<exists>pf E3. prove K m P E2 a i = Some (Inr pf) \<and> mp_leaf pf = leaves ! i \<and>
    verify_proof K m P E2 a pf = Some (Inr True, E3)"
proof -
  have "engine_ports.engine_ok ids_ok iss_ok E"
    using engine_ports.runs_ok [OF assms(1) engine_ports.empty_ok [OF assms(1)] assms(2)] .
  note built = engine_ports.build_coherent [OF assms(1) this assms(3)]
  have "coherent K (service_of P E2) a leaves"
    using engine_ports.runs_coherent [OF assms(1) built(1,2) assms(4,5)] .
  then show ?thesis
    using engine_ports.coherent_prove [OF assms(1) _ assms(6,7)] by blast
qed

theorem built_proofs_verify_witness:
  "\<exists>pf E3. prove trunc_keccak Checked test_ports demo_E2 (Pubkey (arr_fill 0xEE)) 1 = Some (Inr pf) \<and>
    mp_leaf pf = Digest (arr_fill 4) \<and>
    verify_proof trunc_keccak Checked test_ports demo_E2 (Pubkey (arr_fill 0xEE)) pf = Some (Inr True, E3)"
  using built_proofs_verify [OF test.engine_ports_axioms demo_ingest demo_build, of "[]" "[]" demo_E2 1]
  by (simp add: demo_leaves_def)

text \<open>
  C11 What the engine verifies: in the same situation, a proof with the depth of the tree
  that \<open>verify_proof\<close> accepts is for one of the leaves, or makes it hash a pair that
  collides with a pair hashed to build the tree.
\<close>

theorem verified_proofs_are_sound:
  assumes "engine_ports P ids0 ids_ok iss0 iss_ok trees0"
    and "run_requests K m P (empty_engine ids0 iss0 trees0) before = Some (xs, E)"
    and "build_tree K P E a leaves = Some (Inr root, E1)"
    and "run_requests K m P E1 after = Some (ys, E2)" and "list_all (\<lambda>r. \<not> touches a r) after"
    and "leaves \<noteq> []" and "length leaves \<le> 2 ^ 64"
    and "verify_proof K m P E2 a pf = Some (Inr True, E3)"
    and "length (mp_siblings pf) = tree_depth (length leaves)"
  shows "mp_leaf pf \<in> set leaves \<or>
    (\<exists>p q. p \<in> set (path_pairs (hash_pair K) (bit (mp_index_bits pf)) 0 (dg_bytes (mp_leaf pf))
                     (map dg_bytes (mp_siblings pf))) \<and>
      q \<in> set (tree_pairs (hash_pair K) (map dg_bytes leaves)) \<and> colliding (hash_pair K) p q)"
proof -
  have "engine_ports.engine_ok ids_ok iss_ok E"
    using engine_ports.runs_ok [OF assms(1) engine_ports.empty_ok [OF assms(1)] assms(2)] .
  note built = engine_ports.build_coherent [OF assms(1) this assms(3)]
  have "coherent K (service_of P E2) a leaves"
    using engine_ports.runs_coherent [OF assms(1) built(1,2) assms(4,5)] .
  then show ?thesis
    using engine_ports.verified_sound [OF assms(1) _ assms(6-9)] by blast
qed

theorem verified_proofs_are_sound_witness:
  "Digest (arr_fill 3) \<in> set demo_leaves \<or>
    (\<exists>p q. p \<in> set (path_pairs (hash_pair trunc_keccak) (bit (0 :: u64)) 0 (arr_fill 3) [arr_fill 4]) \<and>
      q \<in> set (tree_pairs (hash_pair trunc_keccak) (map dg_bytes demo_leaves)) \<and>
      colliding (hash_pair trunc_keccak) p q)"
proof -
  let ?pf = "\<lparr>mp_leaf = Digest (arr_fill 3), mp_siblings = [Digest (arr_fill 4)], mp_index_bits = 0\<rparr>"
  have "verify_proof trunc_keccak Checked test_ports demo_E2 (Pubkey (arr_fill 0xEE)) ?pf =
      Some (Inr True, publish demo_E2 (ProofVerified (Pubkey (arr_fill 0xEE)) True))"
    by (simp add: verify_proof_def off.vfy_iff test_ports_def MemIssuers_def vec_store_def demo_E2_def)
  from verified_proofs_are_sound [OF test.engine_ports_axioms demo_ingest demo_build, of "[]" "[]",
      OF _ _ _ _ this]
  show ?thesis by (simp add: demo_leaves_def tree_depth.simps)
qed

text \<open>
  Statistics: over any stores, after any run, while the totals fit \<open>u64\<close>, \<open>stats\<close>
  returns the number of identities and of issuers stored and the exact totals of their
  passkeys and attestations, in either arithmetic mode.
\<close>

lemma stats_spec:
  fixes P :: "('i, 'j, 't) ports" and E :: "('i, 'j, 't) engine"
  defines "ids \<equiv> store_map (p_identities P) (eg_identities E)"
  assumes "engine_ports P ids0 ids_ok iss0 iss_ok trees0"
    and "run_requests K m P (empty_engine ids0 iss0 trees0) rs = Some (xs, E)"
    and "(\<Sum>a \<in> dom ids. length (idv_passkeys (the (ids a)))) < 2 ^ 64"
    and "(\<Sum>a \<in> dom ids. length (idv_attestations (the (ids a)))) < 2 ^ 64"
  shows "\<exists>s. stats m' P E = Some (Inr s) \<and> st_identities s = of_nat (card (dom ids)) \<and>
    st_issuers s = of_nat (card (dom (store_map (p_issuers P) (eg_issuers E)))) \<and>
    unat (st_passkeys s) = (\<Sum>a \<in> dom ids. length (idv_passkeys (the (ids a)))) \<and>
    unat (st_attestations s) = (\<Sum>a \<in> dom ids. length (idv_attestations (the (ids a))))"
proof -
  have "engine_ports.engine_ok ids_ok iss_ok E"
    using engine_ports.runs_ok [OF assms(2) engine_ports.empty_ok [OF assms(2)] assms(3)] .
  then show ?thesis
    using engine_ports.stats_exact [OF assms(2)] assms(4,5) unfolding ids_def by blast
qed

text \<open>
  Events, over any ports, faulty ones included: a request that succeeds publishes
  exactly one event, the one of its kind with its data, after the event list it found; one
  that fails publishes none.
\<close>

lemma one_event_per_success:
  assumes "run_request K m P E req = Some (r, E')"
  shows "case r of
      Inl e \<Rightarrow> eg_events E' = eg_events E
    | Inr _ \<Rightarrow> (\<exists>ev. eg_events E' = eg_events E @ [ev] \<and> event_matches req ev)"
  using assms
  by (cases req)
    (auto simp: reply_as_def ingest_identity_def ingest_issuer_def build_tree_def verify_proof_def Let_def
      split: sum.splits option.splits prod.splits)

end
