(* ===== verification/Engine_Races.thy ===== *)
theory Engine_Races
  imports Engine_Props
begin

text \<open>
  The engine under concurrency. The engine is shared by every request handler and by the
  keeper, and each operation awaits its port calls one after the other; between two of them
  any other task can run. Here an operation is a task that makes one port call per step,
  and a schedule says which task steps next.
\<close>

section \<open>Tasks\<close>

text \<open>
  Where a task stands: before its first port call; in \<open>build_tree\<close> before \<open>put_leaves\<close> and
  before \<open>upsert_issuer\<close>, with the local variables it holds; before publishing its event;
  finished with its result.
\<close>

datatype task =
    Start request
  | Put pubkey "digest list" issuer_view digest
  | Upsert pubkey "digest list" issuer_view digest
  | Publish attestation_event reply
  | Finished "engine_error + reply"

fun task_step ::
    "'h keccak \<Rightarrow> arith_mode \<Rightarrow> ('i, 'j, 't) ports \<Rightarrow> task \<Rightarrow> ('i, 'j, 't) engine \<Rightarrow>
     (task \<times> ('i, 'j, 't) engine) panicking"
where
  "task_step K m P (Start (IngestIdentity v)) E =
     (let (r, ids) = sto_upsert (p_identities P) (eg_identities E) v;
          E = E\<lparr>eg_identities := ids\<rparr>
      in case r of
           Inl e \<Rightarrow> Some (Finished (Inl (Port e)), E)
         | Inr _ \<Rightarrow> Some (Publish (IdentityIndexed (idv_address v) (of_nat (length (idv_passkeys v)))
             (of_nat (length (idv_attestations v)))) Done, E))"
| "task_step K m P (Start (IngestIssuer v)) E =
     (let (r, iss) = sto_upsert (p_issuers P) (eg_issuers E) v;
          E = E\<lparr>eg_issuers := iss\<rparr>
      in case r of
           Inl e \<Rightarrow> Some (Finished (Inl (Port e)), E)
         | Inr _ \<Rightarrow> Some (Publish (IssuerIndexed (isv_address v) (isv_merkle_root v)) Done, E))"
| "task_step K m P (Start (BuildTree a leaves)) E =
     (case sto_get (p_issuers P) (eg_issuers E) a of
        Inl e \<Rightarrow> Some (Finished (Inl (Port e)), E)
      | Inr issuer \<Rightarrow>
          map_option (\<lambda>r. (Put a leaves issuer (Digest r), E))
            (tree_root (from_leaves K (map dg_bytes leaves))))"
| "task_step K m P (Put a leaves issuer root) E =
     (let (r, trees) = lst_put (p_trees P) (eg_trees E) a leaves;
          E = E\<lparr>eg_trees := trees\<rparr>
      in case r of
           Inl e \<Rightarrow> Some (Finished (Inl (Port e)), E)
         | Inr _ \<Rightarrow> Some (Upsert a leaves issuer root, E))"
| "task_step K m P (Upsert a leaves issuer root) E =
     (let (r, iss) = sto_upsert (p_issuers P) (eg_issuers E) (issuer\<lparr>isv_merkle_root := root\<rparr>);
          E = E\<lparr>eg_issuers := iss\<rparr>
      in case r of
           Inl e \<Rightarrow> Some (Finished (Inl (Port e)), E)
         | Inr _ \<Rightarrow> Some (Publish (TreeBuilt a root (of_nat (length leaves))) (Root root), E))"
| "task_step K m P (Start (VerifyProof a pf)) E =
     (case sto_get (p_issuers P) (eg_issuers E) a of
        Inl e \<Rightarrow> Some (Finished (Inl (Port e)), E)
      | Inr issuer \<Rightarrow>
          map_option (\<lambda>valid. (Publish (ProofVerified a valid) (Valid valid), E))
            (verify K m (dg_bytes (mp_leaf pf)) (map dg_bytes (mp_siblings pf)) (mp_index_bits pf)
              (dg_bytes (isv_merkle_root issuer))))"
| "task_step K m P (Publish ev r) E = Some (Finished (Inr r), publish E ev)"
| "task_step K m P (Finished r) E = Some (Finished r, E)"

text \<open>A schedule names the task that runs at each step.\<close>

fun run_schedule ::
    "'h keccak \<Rightarrow> arith_mode \<Rightarrow> ('i, 'j, 't) ports \<Rightarrow> task list \<Rightarrow> ('i, 'j, 't) engine \<Rightarrow> nat list \<Rightarrow>
     (task list \<times> ('i, 'j, 't) engine) panicking"
where
  "run_schedule K m P ts E [] = Some (ts, E)"
| "run_schedule K m P ts E (i # is) =
     (if i < length ts
      then (case task_step K m P (ts ! i) E of
              None \<Rightarrow> None
            | Some (t, E') \<Rightarrow> run_schedule K m P (ts[i := t]) E' is)
      else run_schedule K m P ts E is)"

section \<open>Tasks for other issuers do not interfere\<close>

text \<open>The issuer whose root or leaves a task may still write.\<close>

fun task_touches :: "pubkey \<Rightarrow> task \<Rightarrow> bool" where
  "task_touches a (Start req) \<longleftrightarrow> touches a req"
| "task_touches a (Put b _ v _) \<longleftrightarrow> b = a \<or> isv_address v = a"
| "task_touches a (Upsert b _ v _) \<longleftrightarrow> b = a \<or> isv_address v = a"
| "task_touches a _ \<longleftrightarrow> False"

text \<open>What a task that builds the tree of \<open>a\<close> over \<open>leaves\<close> knows at each point.\<close>

fun builder_inv :: "'h keccak \<Rightarrow> service \<Rightarrow> pubkey \<Rightarrow> digest list \<Rightarrow> task \<Rightarrow> bool" where
  "builder_inv K V a leaves (Start req) \<longleftrightarrow> req = BuildTree a leaves"
| "builder_inv K V a leaves (Put b ls v root) \<longleftrightarrow>
     b = a \<and> ls = leaves \<and> root = root_of K leaves \<and> isv_address v = a"
| "builder_inv K V a leaves (Upsert b ls v root) \<longleftrightarrow>
     b = a \<and> ls = leaves \<and> root = root_of K leaves \<and> isv_address v = a \<and> sv_leaves V a = Some leaves"
| "builder_inv K V a leaves (Publish ev r) \<longleftrightarrow> r = Root (root_of K leaves) \<and> coherent K V a leaves"
| "builder_inv K V a leaves (Finished r) \<longleftrightarrow>
     (\<forall>x. r = Inr x \<longrightarrow> x = Root (root_of K leaves) \<and> coherent K V a leaves)"

lemma builder_inv_frame:
  "sv_issuers V' a = sv_issuers V a \<Longrightarrow> sv_leaves V' a = sv_leaves V a \<Longrightarrow>
     builder_inv K V a leaves t \<Longrightarrow> builder_inv K V' a leaves t"
  by (cases t) (auto simp: coherent_def)

context engine_ports begin

lemma other_task_frame:
  assumes "engine_ok E" and "task_step K m P t E = Some (t', E')" and "\<not> task_touches a t"
  shows "engine_ok E' \<and> \<not> task_touches a t' \<and>
    sv_issuers (service_of P E') a = sv_issuers (service_of P E) a \<and>
    sv_leaves (service_of P E') a = sv_leaves (service_of P E) a"
  using assms
proof (cases "(K, m, P, t, E)" rule: task_step.cases)
  case (3 K m P b leaves E)
  with assms iss.get_key show ?thesis
    by (auto simp: engine_ok_def split: sum.splits)
qed (auto simp: ids.upsert_case iss.upsert_case trees.put_case Let_def service_of_def publish_def
    engine_ok_def ids.ok_upsert iss.ok_upsert iss.content_upsert trees.leaf_lookup_put
    split: sum.splits)

lemma builder_step:
  assumes "engine_ok E" and "task_step K m P t E = Some (t', E')"
    and "builder_inv K (service_of P E) a leaves t"
  shows "engine_ok E' \<and> builder_inv K (service_of P E') a leaves t'"
  using assms
proof (cases "(K, m, P, t, E)" rule: task_step.cases)
  case (3 K m P b ls E)
  with assms iss.get_key show ?thesis
    by (auto simp: engine_ok_def tree_root_digests split: sum.splits)
qed (auto simp: ids.upsert_case iss.upsert_case trees.put_case Let_def service_of_def publish_def
    engine_ok_def ids.ok_upsert iss.ok_upsert iss.content_upsert trees.leaf_lookup_put coherent_def
    split: sum.splits)

lemma schedule_builder:
  assumes "engine_ok E" and "run_schedule K m P ts E is = Some (ts', E')"
    and "k < length ts" and "builder_inv K (service_of P E) a leaves (ts ! k)"
    and "\<And>j. j < length ts \<Longrightarrow> j \<noteq> k \<Longrightarrow> \<not> task_touches a (ts ! j)"
  shows "builder_inv K (service_of P E') a leaves (ts' ! k)"
  using assms
proof (induction "is" arbitrary: ts E)
  case Nil
  then show ?case by simp
next
  case (Cons i "is")
  show ?case
  proof (cases "i < length ts")
    case False
    with Cons.prems show ?thesis by (intro Cons.IH [of E ts]) simp_all
  next
    case True
    with Cons.prems(2) obtain t E1 where step: "task_step K m P (ts ! i) E = Some (t, E1)"
      and rest: "run_schedule K m P (ts[i := t]) E1 is = Some (ts', E')"
      by (auto split: option.splits)
    show ?thesis
    proof (rule Cons.IH [OF _ rest])
      show "k < length (ts[i := t])" using Cons.prems(3) by simp
      show "engine_ok E1" "builder_inv K (service_of P E1) a leaves (ts[i := t] ! k)"
        using builder_step [OF Cons.prems(1), of K m t t E1 a leaves]
          builder_step [OF Cons.prems(1) step, of a leaves] other_task_frame [OF Cons.prems(1) step, of a]
          Cons.prems(3-5) True builder_inv_frame [of "service_of P E1" a "service_of P E" K leaves "ts ! k"]
        by (cases "i = k"; auto)+
      show "\<not> task_touches a (ts[i := t] ! j)" if "j < length (ts[i := t])" "j \<noteq> k" for j
        using that Cons.prems(5) [of j] Cons.prems(5) [of i] other_task_frame [OF Cons.prems(1) step, of a] True
        by (cases "j = i") auto
    qed
  qed
qed

text \<open>
  Two builds of the same issuer, interleaved: both read the issuer, the first stores its
  leaves, the second stores its leaves and its root, then the first stores its root.
\<close>

lemma interleaved_builds:
  assumes "engine_ok E" and "store_map (p_issuers P) (eg_issuers E) a = Some v"
  shows "\<exists>E'. run_schedule K m P [Start (BuildTree a la), Start (BuildTree a lb)] E
        [0, 1, 0, 1, 1, 0, 0, 1] =
      Some ([Finished (Inr (Root (root_of K la))), Finished (Inr (Root (root_of K lb)))], E') \<and>
    engine_ok E' \<and> leaf_lookup (p_trees P) (eg_trees E') a = Some lb \<and>
    store_map (p_issuers P) (eg_issuers E') a = Some (v\<lparr>isv_merkle_root := root_of K la\<rparr>)"
proof -
  have "isv_address v = a"
    using assms by (auto simp: engine_ok_def intro: iss.content_key)
  with assms show ?thesis
    by (simp add: iss.get_content tree_root_digests iss.upsert_case trees.put_case Let_def publish_def
        engine_ok_def iss.ok_upsert iss.content_upsert trees.leaf_lookup_put)
qed

lemma mismatched_proofs_fail:
  assumes "engine_ok E" and "leaf_lookup (p_trees P) (eg_trees E) a = Some leaves"
    and "store_map (p_issuers P) (eg_issuers E) a = Some v" and "isv_merkle_root v \<noteq> root_of K leaves"
    and "i < length leaves" and "length leaves \<le> 2 ^ 64"
  shows "\<exists>pf E'. prove K m P E a i = Some (Inr pf) \<and> mp_leaf pf = leaves ! i \<and>
    verify_proof K m P E a pf = Some (Inr False, E')"
proof -
  let ?v = "v\<lparr>isv_merkle_root := root_of K leaves\<rparr>"
  let ?E = "snd (ingest_issuer P E ?v)"
  have addr: "isv_address v = a"
    using assms(1,3) by (auto simp: engine_ok_def intro: iss.content_key)
  have ok: "engine_ok ?E"
    using assms(1) by (simp add: ingest_issuer_eq publish_def engine_ok_def iss.ok_upsert)
  have "coherent K (service_of P ?E) a leaves"
    using assms(1,2) addr
    by (simp add: ingest_issuer_eq publish_def engine_ok_def coherent_def service_of_def iss.content_upsert)
  from reingest_fails [OF ok this assms(5,6) addr assms(4), of m]
  obtain pf E2 where pf: "prove K m P (snd (ingest_issuer P ?E v)) a i = Some (Inr pf)"
    "mp_leaf pf = leaves ! i" "verify_proof K m P (snd (ingest_issuer P ?E v)) a pf = Some (Inr False, E2)"
    by blast
  have "sto_get (p_issuers P) (eg_issuers (snd (ingest_issuer P ?E v))) a = sto_get (p_issuers P) (eg_issuers E) a"
    using assms(1,3) addr ok
    by (simp add: ingest_issuer_eq publish_def engine_ok_def iss.get_upsert iss.get_content
        iss.ok_upsert iss.content_upsert)
  with pf have "prove K m P E a i = Some (Inr pf)" "\<exists>E'. verify_proof K m P E a pf = Some (Inr False, E')"
    by (auto simp: prove_def verify_proof_def ingest_issuer_eq publish_def split: sum.splits option.splits)
  with pf(2) show ?thesis by blast
qed

end

section \<open>Properties\<close>

text \<open>
  Run without interruption, a task gives the result, the state and the panics of the
  operation it stands for, over any ports and among any other tasks; no operation makes
  more than four port calls and publications.
\<close>

lemma uninterrupted_task_is_request:
  assumes "k < length ts" and "ts ! k = Start req"
  shows "run_schedule K m P ts E [k, k, k, k] =
     map_option (\<lambda>(r, E'). (ts[k := Finished r], E')) (run_request K m P E req)"
proof (cases req)
  case (IngestIdentity v)
  with assms show ?thesis
    by (cases "sto_upsert (p_identities P) (eg_identities E) v")
      (auto simp: ingest_identity_def reply_as_def Let_def split: sum.splits)
next
  case (IngestIssuer v)
  with assms show ?thesis
    by (cases "sto_upsert (p_issuers P) (eg_issuers E) v")
      (auto simp: ingest_issuer_def reply_as_def Let_def split: sum.splits)
next
  case (BuildTree a leaves)
  with assms show ?thesis
    by (auto simp: build_tree_def reply_as_def Let_def split: sum.splits option.splits prod.splits)
next
  case (VerifyProof a pf)
  with assms show ?thesis
    by (auto simp: verify_proof_def reply_as_def split: sum.splits option.splits)
qed

text \<open>
  Isolation: under any schedule of any tasks of which only one touches an issuer, when
  that one is a \<open>build_tree\<close> that has finished successfully, it returned the root of its
  leaves, and the issuer's stored leaves and root are those it built: every proof of that
  tree verifies.
\<close>

lemma single_builder_is_isolated:
  assumes "engine_ports P ids0 ids_ok iss0 iss_ok trees0"
    and "run_requests K m P (empty_engine ids0 iss0 trees0) before = Some (xs, E)"
    and "run_schedule K m P ts E is = Some (ts', E')"
    and "k < length ts" and "ts ! k = Start (BuildTree a leaves)"
    and "\<And>j. j < length ts \<Longrightarrow> j \<noteq> k \<Longrightarrow> \<not> task_touches a (ts ! j)"
    and "ts' ! k = Finished (Inr r)" and "i < length leaves" and "length leaves \<le> 2 ^ 64"
  shows "r = Root (root_of K leaves) \<and>
    (\<exists>pf E''. prove K m P E' a i = Some (Inr pf) \<and> mp_leaf pf = leaves ! i \<and>
      verify_proof K m P E' a pf = Some (Inr True, E''))"
proof -
  have ok: "engine_ports.engine_ok ids_ok iss_ok E"
    using engine_ports.runs_ok [OF assms(1) engine_ports.empty_ok [OF assms(1)] assms(2)] .
  have "builder_inv K (service_of P E) a leaves (ts ! k)" by (simp add: assms(5))
  from engine_ports.schedule_builder [OF assms(1) ok assms(3,4) this assms(6)]
  have "r = Root (root_of K leaves)" "coherent K (service_of P E') a leaves"
    by (simp_all add: assms(7))
  then show ?thesis
    using engine_ports.coherent_prove [OF assms(1) _ assms(8,9)] by blast
qed

text \<open>
  C27 Two builds of the same issuer can interleave so that both succeed and yet the stored
  leaves are those of one and the stored root is that of the other: with different roots,
  every proof that \<open>prove\<close> then mints is refused by \<open>verify_proof\<close>.
\<close>

theorem concurrent_builds_break_proofs:
  assumes "engine_ports P ids0 ids_ok iss0 iss_ok trees0"
    and "run_requests K m P (empty_engine ids0 iss0 trees0) before = Some (xs, E)"
    and "store_map (p_issuers P) (eg_issuers E) a = Some v"
    and "root_of K la \<noteq> root_of K lb" and "i < length lb" and "length lb \<le> 2 ^ 64"
  shows "\<exists>E' pf E''. run_schedule K m P [Start (BuildTree a la), Start (BuildTree a lb)] E
        [0, 1, 0, 1, 1, 0, 0, 1] =
      Some ([Finished (Inr (Root (root_of K la))), Finished (Inr (Root (root_of K lb)))], E') \<and>
    prove K m P E' a i = Some (Inr pf) \<and> mp_leaf pf = lb ! i \<and>
    verify_proof K m P E' a pf = Some (Inr False, E'')"
proof -
  have "engine_ports.engine_ok ids_ok iss_ok E"
    using engine_ports.runs_ok [OF assms(1) engine_ports.empty_ok [OF assms(1)] assms(2)] .
  from engine_ports.interleaved_builds [OF assms(1) this assms(3), of K m la lb]
  obtain E' where E': "run_schedule K m P [Start (BuildTree a la), Start (BuildTree a lb)] E
        [0, 1, 0, 1, 1, 0, 0, 1] =
      Some ([Finished (Inr (Root (root_of K la))), Finished (Inr (Root (root_of K lb)))], E')"
    "engine_ports.engine_ok ids_ok iss_ok E'" "leaf_lookup (p_trees P) (eg_trees E') a = Some lb"
    "store_map (p_issuers P) (eg_issuers E') a = Some (v\<lparr>isv_merkle_root := root_of K la\<rparr>)"
    by blast
  then show ?thesis
    using engine_ports.mismatched_proofs_fail [OF assms(1) E'(2-4) _ assms(5,6), of K m] assms(4)
    by simp
qed

theorem concurrent_builds_break_proofs_witness:
  "\<exists>E' pf E''. run_schedule trunc_keccak Checked test_ports
       [Start (BuildTree (Pubkey (arr_fill 0xEE)) [Digest (arr_fill 6)]),
        Start (BuildTree (Pubkey (arr_fill 0xEE)) demo_leaves)] demo_E1 [0, 1, 0, 1, 1, 0, 0, 1] =
      Some ([Finished (Inr (Root (Digest (arr_fill 6)))), Finished (Inr (Root (Digest (arr_fill 3))))], E') \<and>
    prove trunc_keccak Checked test_ports E' (Pubkey (arr_fill 0xEE)) 0 = Some (Inr pf) \<and>
    verify_proof trunc_keccak Checked test_ports E' (Pubkey (arr_fill 0xEE)) pf = Some (Inr False, E'')"
proof -
  have "store_map (p_issuers test_ports) (eg_issuers demo_E1) (Pubkey (arr_fill 0xEE)) = Some demo_issuer"
    by (simp add: store_map_def test_ports_def MemIssuers_def vec_store_def demo_E1_def)
  moreover have "root_of trunc_keccak [Digest (arr_fill 6)] = Digest (arr_fill 6)"
    by (simp add: root_of_def mroot.simps)
  ultimately show ?thesis
    using concurrent_builds_break_proofs [OF test.engine_ports_axioms demo_ingest, of _ demo_issuer
        "[Digest (arr_fill 6)]" demo_leaves 0] demo_root
    by (fastforce simp: demo_leaves_def simp del: run_schedule.simps)
qed

end
