(* ===== verification/Keeper.thy ===== *)
theory Keeper
  imports Engine_Races
begin

text \<open>
  The keeper watchers, \<open>node/src/keeper.rs\<close>: one poll of the data source, one scan of the
  statistics, and the cycles of the two background loops with the metrics they record. A
  data source answers a poll with what its two port calls return. The metrics are global
  counters and gauges; a gauge holds an \<open>f64\<close>, which the model leaves abstract: \<open>to_f64\<close>
  is the conversion \<open>as f64\<close>.
\<close>

section \<open>Model\<close>

record 'f metrics =
  mx_poll_total :: nat
  mx_poll_errors :: nat
  mx_scan_total :: nat
  mx_scan_errors :: nat
  mx_identities :: "'f option"
  mx_issuers :: "'f option"
  mx_passkeys :: "'f option"
  mx_attestations :: "'f option"

definition metrics_start :: "'f metrics" where
  "metrics_start =
     \<lparr>mx_poll_total = 0, mx_poll_errors = 0, mx_scan_total = 0, mx_scan_errors = 0,
      mx_identities = None, mx_issuers = None, mx_passkeys = None, mx_attestations = None\<rparr>"

record source =
  src_identities :: "port_error + identity_view list"
  src_issuers :: "port_error + issuer_view list"

fun ingest_identities ::
    "('i, 'j, 't) ports \<Rightarrow> ('i, 'j, 't) engine \<Rightarrow> identity_view list \<Rightarrow>
     (engine_error + unit) \<times> ('i, 'j, 't) engine" where
  "ingest_identities P E [] = (Inr (), E)"
| "ingest_identities P E (v # vs) =
     (case ingest_identity P E v of
        (Inl e, E') \<Rightarrow> (Inl e, E')
      | (Inr _, E') \<Rightarrow> ingest_identities P E' vs)"

fun ingest_issuers ::
    "('i, 'j, 't) ports \<Rightarrow> ('i, 'j, 't) engine \<Rightarrow> issuer_view list \<Rightarrow>
     (engine_error + unit) \<times> ('i, 'j, 't) engine" where
  "ingest_issuers P E [] = (Inr (), E)"
| "ingest_issuers P E (v # vs) =
     (case ingest_issuer P E v of
        (Inl e, E') \<Rightarrow> (Inl e, E')
      | (Inr _, E') \<Rightarrow> ingest_issuers P E' vs)"

text \<open>Both polls come before the first ingest; the first failure ends the poll.\<close>

definition poll_once ::
    "('i, 'j, 't) ports \<Rightarrow> source \<Rightarrow> ('i, 'j, 't) engine \<times> 'f metrics \<Rightarrow>
     (engine_error + nat) \<times> (('i, 'j, 't) engine \<times> 'f metrics)" where
  "poll_once P src EM =
     (let (E, M) = EM in
      case src_identities src of
        Inl e \<Rightarrow> (Inl (Port e), (E, M))
      | Inr identities \<Rightarrow>
          (case src_issuers src of
             Inl e \<Rightarrow> (Inl (Port e), (E, M))
           | Inr issuers \<Rightarrow>
               (let n = length identities + length issuers in
                case ingest_identities P E identities of
                  (Inl e, E1) \<Rightarrow> (Inl e, (E1, M))
                | (Inr _, E1) \<Rightarrow>
                    (case ingest_issuers P E1 issuers of
                       (Inl e, E2) \<Rightarrow> (Inl e, (E2, M))
                     | (Inr _, E2) \<Rightarrow>
                         (Inr n, (E2, M\<lparr>mx_poll_total := mx_poll_total M + 1\<rparr>))))))"

definition scan_once ::
    "arith_mode \<Rightarrow> (u64 \<Rightarrow> 'f) \<Rightarrow> ('i, 'j, 't) ports \<Rightarrow> ('i, 'j, 't) engine \<times> 'f metrics \<Rightarrow>
     ((engine_error + unit) \<times> 'f metrics) panicking" where
  "scan_once m to_f64 P EM =
     (let (E, M) = EM in
      case stats m P E of
        None \<Rightarrow> None
      | Some (Inl e) \<Rightarrow> Some (Inl e, M)
      | Some (Inr s) \<Rightarrow> Some (Inr (),
          M\<lparr>mx_identities := Some (to_f64 (st_identities s)),
            mx_issuers := Some (to_f64 (st_issuers s)),
            mx_passkeys := Some (to_f64 (st_passkeys s)),
            mx_attestations := Some (to_f64 (st_attestations s)),
            mx_scan_total := mx_scan_total M + 1\<rparr>))"

text \<open>One turn of each background loop: a failure is counted and the loop goes on.\<close>

definition poll_cycle ::
    "('i, 'j, 't) ports \<Rightarrow> source \<Rightarrow> ('i, 'j, 't) engine \<times> 'f metrics \<Rightarrow>
     ('i, 'j, 't) engine \<times> 'f metrics" where
  "poll_cycle P src EM =
     (case poll_once P src EM of
        (Inr _, EM') \<Rightarrow> EM'
      | (Inl e, (E', M')) \<Rightarrow> (E', M'\<lparr>mx_poll_errors := mx_poll_errors M' + 1\<rparr>))"

definition scan_cycle ::
    "arith_mode \<Rightarrow> (u64 \<Rightarrow> 'f) \<Rightarrow> ('i, 'j, 't) ports \<Rightarrow> ('i, 'j, 't) engine \<times> 'f metrics \<Rightarrow>
     (('i, 'j, 't) engine \<times> 'f metrics) panicking" where
  "scan_cycle m to_f64 P EM =
     (case scan_once m to_f64 P EM of
        None \<Rightarrow> None
      | Some (Inr _, M') \<Rightarrow> Some (fst EM, M')
      | Some (Inl e, M') \<Rightarrow> Some (fst EM, M'\<lparr>mx_scan_errors := mx_scan_errors M' + 1\<rparr>))"

definition sim_source :: source where
  "sim_source = \<lparr>src_identities = sim_poll_identities, src_issuers = sim_poll_issuers\<rparr>"

section \<open>A poll is a sequence of ingests\<close>

text \<open>Requests that run one after the other up to the first failure.\<close>

lemma run_requests_append:
  "run_requests K m P E (rs @ rs') =
     (case run_requests K m P E rs of
        None \<Rightarrow> None
      | Some (xs, E1) \<Rightarrow> map_option (\<lambda>(ys, E2). (xs @ ys, E2)) (run_requests K m P E1 rs'))"
proof (induction rs arbitrary: E)
  case (Cons r rs)
  then show ?case
    by (auto simp: option.map_comp comp_def case_prod_unfold split: option.splits simp del: run_request.simps)
qed (simp add: option.map_id flip: id_def)

context engine_ports begin

lemma ingest_identities_runs:
  "fst (ingest_identities P E vs) = Inr () \<and>
   run_requests K m P E (map IngestIdentity vs) =
     Some (replicate (length vs) (Inr Done), snd (ingest_identities P E vs))"
  by (induction vs arbitrary: E) (auto simp: ingest_identity_eq reply_as_def)

lemma ingest_issuers_runs:
  "fst (ingest_issuers P E vs) = Inr () \<and>
   run_requests K m P E (map IngestIssuer vs) =
     Some (replicate (length vs) (Inr Done), snd (ingest_issuers P E vs))"
  by (induction vs arbitrary: E) (auto simp: ingest_issuer_eq reply_as_def)

lemma poll_once_runs:
  assumes "src_identities src = Inr ids" and "src_issuers src = Inr iss"
  shows "\<exists>E'. poll_once P src (E, M) =
      (Inr (length ids + length iss), (E', M\<lparr>mx_poll_total := mx_poll_total M + 1\<rparr>)) \<and>
    run_requests K m P E (map IngestIdentity ids @ map IngestIssuer iss) =
      Some (replicate (length ids + length iss) (Inr Done), E')"
proof -
  obtain E1 where ids: "ingest_identities P E ids = (Inr (), E1)"
    using ingest_identities_runs [of E ids K m] by (metis prod.collapse)
  obtain E2 where iss: "ingest_issuers P E1 iss = (Inr (), E2)"
    using ingest_issuers_runs [of E1 iss K m] by (metis prod.collapse)
  have "poll_once P src (E, M) =
      (Inr (length ids + length iss), (E2, M\<lparr>mx_poll_total := mx_poll_total M + 1\<rparr>))"
    using assms by (simp add: poll_once_def ids iss)
  moreover have "run_requests K m P E (map IngestIdentity ids @ map IngestIssuer iss) =
      Some (replicate (length ids + length iss) (Inr Done), E2)"
    using ingest_identities_runs [of E ids K m] ingest_issuers_runs [of E1 iss K m]
    by (simp add: run_requests_append replicate_add ids iss)
  ultimately show ?thesis by blast
qed

end

section \<open>Properties\<close>

text \<open>
  A poll whose two port calls succeed is the sequence of ingests of the polled
  identities and then of the polled issuers: it reports their number, leaves the engine in
  the state of that sequence, in which none fails, and is counted once.
\<close>

lemma poll_is_ingest_sequence:
  assumes "engine_ports P ids0 ids_ok iss0 iss_ok trees0"
    and "src_identities src = Inr ids" and "src_issuers src = Inr iss"
  shows "\<exists>E'. poll_once P src (E, M) =
      (Inr (length ids + length iss), (E', M\<lparr>mx_poll_total := mx_poll_total M + 1\<rparr>)) \<and>
    run_requests K m P E (map IngestIdentity ids @ map IngestIssuer iss) =
      Some (replicate (length ids + length iss) (Inr Done), E')"
  by (rule engine_ports.poll_once_runs [OF assms])

text \<open>
  Every poll cycle is counted exactly once, as a poll or as a poll error, over any ports
  and source; a cycle whose source fails leaves the engine untouched.
\<close>

lemma poll_cycles_counted:
  "mx_poll_total (snd (poll_cycle P src EM)) + mx_poll_errors (snd (poll_cycle P src EM)) =
     mx_poll_total (snd EM) + mx_poll_errors (snd EM) + 1 \<and>
   (isl (src_identities src) \<or> isl (src_issuers src) \<longrightarrow>
     fst (poll_cycle P src EM) = fst EM \<and>
     mx_poll_errors (snd (poll_cycle P src EM)) = mx_poll_errors (snd EM) + 1)"
  by (cases EM) (auto simp: poll_cycle_def poll_once_def Let_def isl_def split: sum.splits prod.splits)

text \<open>
  C28 The node's own keeper undoes the trees of its demo issuer: the simulator mints that
  issuer with the zero root on every poll, so after a tree with another root has been built
  for it, one poll makes every proof that \<open>prove\<close> still mints fail verification.
\<close>

theorem sim_poll_invalidates_proofs:
  assumes "engine_ports P ids0 ids_ok iss0 iss_ok trees0"
    and "run_requests K m P (empty_engine ids0 iss0 trees0) before = Some (xs, E)"
    and "build_tree K P E (isv_address demo_issuer) leaves = Some (Inr root, E1)"
    and "root \<noteq> digest_zero" and "i < length leaves" and "length leaves \<le> 2 ^ 64"
    and "poll_once P sim_source (E1, M) = (r, (E2, M'))"
  shows "r = Inr 2 \<and> (\<exists>pf E3. prove K m P E2 (isv_address demo_issuer) i = Some (Inr pf) \<and>
    mp_leaf pf = leaves ! i \<and>
    verify_proof K m P E2 (isv_address demo_issuer) pf = Some (Inr False, E3))"
proof -
  have "engine_ports.engine_ok ids_ok iss_ok E"
    using engine_ports.runs_ok [OF assms(1) engine_ports.empty_ok [OF assms(1)] assms(2)] .
  note built = engine_ports.build_coherent [OF assms(1) this assms(3)]
  define E1' where "E1' = snd (ingest_identity P E1 demo_identity)"
  have id: "ingest_identity P E1 demo_identity = (Inr (), E1')"
    unfolding E1'_def by (simp add: engine_ports.ingest_identity_eq [OF assms(1)])
  have iss: "ingest_issuer P E1' demo_issuer = (Inr (), snd (ingest_issuer P E1' demo_issuer))"
    by (simp add: engine_ports.ingest_issuer_eq [OF assms(1)])
  have poll: "r = Inr 2" "E2 = snd (ingest_issuer P E1' demo_issuer)"
    using assms(7) id iss
    by (auto simp: poll_once_def sim_source_def sim_poll_identities_def sim_poll_issuers_def
        split: prod.splits)
  have run: "run_requests K m P E1 [IngestIdentity demo_identity] = Some ([Inr Done], E1')"
    by (simp add: id reply_as_def)
  have "coherent K (service_of P E1') (isv_address demo_issuer) leaves"
    using engine_ports.runs_coherent [OF assms(1) built(1,2) run] by simp
  moreover have "engine_ports.engine_ok ids_ok iss_ok E1'"
    using engine_ports.runs_ok [OF assms(1) built(1) run] .
  ultimately show ?thesis
    using engine_ports.reingest_fails [OF assms(1) _ _ assms(5,6), of E1' K "isv_address demo_issuer"
      demo_issuer m] poll built(3) assms(4)
    by auto
qed

theorem sim_poll_invalidates_proofs_witness:
  "\<exists>pf E3. prove trunc_keccak Checked test_ports (fst (snd (poll_once test_ports sim_source (demo_E2, metrics_start :: unit metrics))))
      (Pubkey (arr_fill 0xEE)) 0 = Some (Inr pf) \<and>
    verify_proof trunc_keccak Checked test_ports (fst (snd (poll_once test_ports sim_source (demo_E2, metrics_start :: unit metrics))))
      (Pubkey (arr_fill 0xEE)) pf = Some (Inr False, E3)"
proof -
  obtain r E2 M' where poll: "poll_once test_ports sim_source (demo_E2, metrics_start :: unit metrics) = (r, (E2, M'))"
    by (metis prod.collapse)
  have build: "build_tree trunc_keccak test_ports demo_E1 (isv_address demo_issuer) demo_leaves =
      Some (Inr (Digest (arr_fill 3)), demo_E2)"
    using demo_build by simp
  from sim_poll_invalidates_proofs [OF test.engine_ports_axioms demo_ingest build _ _ _ poll, of 0]
  show ?thesis by (auto simp: poll demo_leaves_def digest_zero_def)
qed

end
