(* ===== verification/Api.thy ===== *)
theory Api
  imports Keeper
begin

text \<open>
  The GraphQL surface, \<open>api/src/lib.rs\<close>: the transfer objects, the conversions into them,
  and the resolvers of the queries and mutations over the engine. A resolver returns a
  GraphQL error, which is the text of the error it maps, or a value; \<open>None\<close> is a panic.
  Parsing the request, limiting its depth and complexity, and delivering subscriptions is
  the work of \<open>async-graphql\<close> and not modelled; the schema is always built with its context,
  so looking the context up does not fail.
\<close>

section \<open>Decimal and error texts\<close>

text \<open>\<open>to_string\<close> of an unsigned integer.\<close>

fun nat_dec :: "nat \<Rightarrow> string" where
  "nat_dec n = (if n < 10 then [char_of (48 + n)] else nat_dec (n div 10) @ [char_of (48 + n mod 10)])"

declare nat_dec.simps [simp del]

definition display_domain :: "domain_error \<Rightarrow> string" where
  "display_domain e = (case e of
     InvalidHex expected \<Rightarrow> ''invalid hex (expected '' @ nat_dec expected @ '' bytes)''
   | DomainNotFound \<Rightarrow> ''not found'')"

definition display_port :: "port_error \<Rightarrow> string" where
  "display_port e = (case e of Backend s \<Rightarrow> ''port failure: '' @ s | NotFound \<Rightarrow> ''not found'')"

definition display_engine :: "engine_error \<Rightarrow> string" where
  "display_engine e = (case e of
     Port p \<Rightarrow> display_port p
   | LeafOutOfRange i \<Rightarrow> ''leaf index '' @ nat_dec i @ '' out of range'')"

definition parse_key :: "string \<Rightarrow> string + pubkey" where
  "parse_key s = map_err display_domain (pubkey_from_hex s)"

definition parse_digest :: "string \<Rightarrow> string + digest" where
  "parse_digest s = map_err display_domain (digest_from_hex s)"

text \<open>\<open>iter().map(parse_digest).collect::<GqlResult<Vec<_>>>()\<close>: the first error wins.\<close>

fun parse_digests :: "string list \<Rightarrow> string + digest list" where
  "parse_digests [] = Inr []"
| "parse_digests (s # ss) =
     res_bind (parse_digest s) (\<lambda>d. res_bind (parse_digests ss) (\<lambda>ds. Inr (d # ds)))"

section \<open>Transfer objects\<close>

record passkey_dto =
  kd_pubkey_hex :: string
  kd_label :: string
  kd_added_ts :: i64

record attestation_dto =
  ad_issuer :: string
  ad_schema_id :: string
  ad_claimed_ts :: i64

record identity_dto =
  id_dto_address :: string
  id_dto_owner :: string
  id_dto_passkeys :: "passkey_dto list"
  id_dto_attestations :: "attestation_dto list"

definition identity_to_dto :: "identity_view \<Rightarrow> identity_dto" where
  "identity_to_dto i =
     \<lparr>id_dto_address = pubkey_to_hex (idv_address i), id_dto_owner = pubkey_to_hex (idv_owner i),
      id_dto_passkeys = map (\<lambda>p. \<lparr>kd_pubkey_hex = pkv_pubkey_hex p, kd_label = pkv_label p,
        kd_added_ts = pkv_added_ts p\<rparr>) (idv_passkeys i),
      id_dto_attestations = map (\<lambda>a. \<lparr>ad_issuer = pubkey_to_hex (atv_issuer a),
        ad_schema_id = digest_to_hex (atv_schema_id a), ad_claimed_ts = atv_claimed_ts a\<rparr>)
        (idv_attestations i)\<rparr>"

record issuer_dto =
  is_dto_address :: string
  is_dto_authority :: string
  is_dto_schema_id :: string
  is_dto_merkle_root :: string
  is_dto_attestation_count :: string

definition issuer_to_dto :: "issuer_view \<Rightarrow> issuer_dto" where
  "issuer_to_dto i =
     \<lparr>is_dto_address = pubkey_to_hex (isv_address i), is_dto_authority = pubkey_to_hex (isv_authority i),
      is_dto_schema_id = digest_to_hex (isv_schema_id i),
      is_dto_merkle_root = digest_to_hex (isv_merkle_root i),
      is_dto_attestation_count = nat_dec (unat (isv_attestation_count i))\<rparr>"

record stats_dto =
  sd_identities :: string
  sd_issuers :: string
  sd_passkeys :: string
  sd_attestations :: string

definition stats_to_dto :: "identity_stats \<Rightarrow> stats_dto" where
  "stats_to_dto s =
     \<lparr>sd_identities = nat_dec (unat (st_identities s)), sd_issuers = nat_dec (unat (st_issuers s)),
      sd_passkeys = nat_dec (unat (st_passkeys s)),
      sd_attestations = nat_dec (unat (st_attestations s))\<rparr>"

record proof_dto =
  pd_leaf :: string
  pd_siblings :: "string list"
  pd_index_bits :: string

definition proof_to_dto :: "merkle_proof \<Rightarrow> proof_dto" where
  "proof_to_dto p =
     \<lparr>pd_leaf = digest_to_hex (mp_leaf p), pd_siblings = map digest_to_hex (mp_siblings p),
      pd_index_bits = nat_dec (unat (mp_index_bits p))\<rparr>"

record event_dto =
  ed_kind :: string
  ed_subject :: string
  ed_root :: "string option"
  ed_valid :: "bool option"
  ed_count :: "u32 option"

text \<open>\<open>passkeys + attestations\<close> on \<open>u32\<close>: an overflow panics where it is checked.\<close>

definition add_u32 :: "arith_mode \<Rightarrow> u32 \<Rightarrow> u32 \<Rightarrow> u32 panicking" where
  "add_u32 m a b = (case checked_add a b of
     Some c \<Rightarrow> Some c
   | None \<Rightarrow> (case m of Checked \<Rightarrow> None | Wrapping \<Rightarrow> Some (a + b)))"

fun event_to_dto :: "arith_mode \<Rightarrow> attestation_event \<Rightarrow> event_dto panicking" where
  "event_to_dto m (IdentityIndexed identity passkeys attestations) =
     map_option (\<lambda>n. \<lparr>ed_kind = ''identity_indexed'', ed_subject = pubkey_to_hex identity,
       ed_root = None, ed_valid = None, ed_count = Some n\<rparr>) (add_u32 m passkeys attestations)"
| "event_to_dto m (IssuerIndexed issuer root) =
     Some \<lparr>ed_kind = ''issuer_indexed'', ed_subject = pubkey_to_hex issuer,
       ed_root = Some (digest_to_hex root), ed_valid = None, ed_count = None\<rparr>"
| "event_to_dto m (TreeBuilt issuer root leaves) =
     Some \<lparr>ed_kind = ''tree_built'', ed_subject = pubkey_to_hex issuer,
       ed_root = Some (digest_to_hex root), ed_valid = None, ed_count = Some leaves\<rparr>"
| "event_to_dto m (ProofVerified issuer valid) =
     Some \<lparr>ed_kind = ''proof_verified'', ed_subject = pubkey_to_hex issuer,
       ed_root = None, ed_valid = Some valid, ed_count = None\<rparr>"

section \<open>Queries\<close>

definition query_identities ::
    "('i, 'j, 't) ports \<Rightarrow> ('i, 'j, 't) engine \<Rightarrow> string + identity_dto list" where
  "query_identities P E =
     res_bind (map_err display_engine (identities_snapshot P E)) (\<lambda>is. Inr (map identity_to_dto is))"

definition query_identity ::
    "('i, 'j, 't) ports \<Rightarrow> ('i, 'j, 't) engine \<Rightarrow> string \<Rightarrow> string + identity_dto" where
  "query_identity P E address =
     res_bind (parse_key address) (\<lambda>k.
     res_bind (map_err display_engine (engine_identity P E k)) (\<lambda>i. Inr (identity_to_dto i)))"

definition query_issuers ::
    "('i, 'j, 't) ports \<Rightarrow> ('i, 'j, 't) engine \<Rightarrow> string + issuer_dto list" where
  "query_issuers P E =
     res_bind (map_err display_engine (issuers_snapshot P E)) (\<lambda>is. Inr (map issuer_to_dto is))"

definition query_stats ::
    "arith_mode \<Rightarrow> ('i, 'j, 't) ports \<Rightarrow> ('i, 'j, 't) engine \<Rightarrow> (string + stats_dto) panicking" where
  "query_stats m P E =
     map_option (\<lambda>r. res_bind (map_err display_engine r) (\<lambda>s. Inr (stats_to_dto s))) (stats m P E)"

definition query_proof ::
    "'h keccak \<Rightarrow> arith_mode \<Rightarrow> ('i, 'j, 't) ports \<Rightarrow> ('i, 'j, 't) engine \<Rightarrow> string \<Rightarrow> u32 \<Rightarrow>
     (string + proof_dto) panicking" where
  "query_proof K m P E issuer index =
     (case parse_key issuer of
        Inl e \<Rightarrow> Some (Inl e)
      | Inr k \<Rightarrow>
          map_option (\<lambda>r. res_bind (map_err display_engine r) (\<lambda>p. Inr (proof_to_dto p)))
            (prove K m P E k (unat index)))"

section \<open>Mutations\<close>

definition mutate_ingest_issuer ::
    "('i, 'j, 't) ports \<Rightarrow> ('i, 'j, 't) engine \<Rightarrow> string \<Rightarrow> string \<Rightarrow> string \<Rightarrow>
     (string + issuer_dto) \<times> ('i, 'j, 't) engine" where
  "mutate_ingest_issuer P E address authority schema_id =
     (case res_bind (parse_key address) (\<lambda>a. res_bind (parse_key authority) (\<lambda>b.
             res_bind (parse_digest schema_id) (\<lambda>c.
             Inr \<lparr>isv_address = a, isv_authority = b, isv_schema_id = c,
               isv_merkle_root = digest_zero, isv_attestation_count = 0\<rparr>))) of
        Inl e \<Rightarrow> (Inl e, E)
      | Inr issuer \<Rightarrow>
          (case ingest_issuer P E issuer of
             (Inl e, E') \<Rightarrow> (Inl (display_engine e), E')
           | (Inr _, E') \<Rightarrow> (Inr (issuer_to_dto issuer), E')))"

definition mutate_build_tree ::
    "'h keccak \<Rightarrow> ('i, 'j, 't) ports \<Rightarrow> ('i, 'j, 't) engine \<Rightarrow> string \<Rightarrow> string list \<Rightarrow>
     ((string + string) \<times> ('i, 'j, 't) engine) panicking" where
  "mutate_build_tree K P E issuer leaves =
     (case res_bind (parse_digests leaves) (\<lambda>ls. res_bind (parse_key issuer) (\<lambda>k. Inr (k, ls))) of
        Inl e \<Rightarrow> Some (Inl e, E)
      | Inr (k, ls) \<Rightarrow>
          map_option (\<lambda>(r, E'). (res_bind (map_err display_engine r) (\<lambda>d. Inr (digest_to_hex d)), E'))
            (build_tree K P E k ls))"

definition mutate_verify_proof ::
    "'h keccak \<Rightarrow> arith_mode \<Rightarrow> ('i, 'j, 't) ports \<Rightarrow> ('i, 'j, 't) engine \<Rightarrow>
     string \<Rightarrow> string \<Rightarrow> string list \<Rightarrow> u64 \<Rightarrow> ((string + bool) \<times> ('i, 'j, 't) engine) panicking" where
  "mutate_verify_proof K m P E issuer leaf siblings index_bits =
     (case res_bind (parse_digests siblings) (\<lambda>ss. res_bind (parse_digest leaf) (\<lambda>l.
             res_bind (parse_key issuer) (\<lambda>k.
             Inr (k, \<lparr>mp_leaf = l, mp_siblings = ss, mp_index_bits = index_bits\<rparr>)))) of
        Inl e \<Rightarrow> Some (Inl e, E)
      | Inr (k, pf) \<Rightarrow>
          map_option (\<lambda>(r, E'). (map_err display_engine r, E')) (verify_proof K m P E k pf))"

section \<open>Texts round-trip\<close>

text \<open>The number that a decimal text denotes.\<close>

definition dec_value :: "string \<Rightarrow> nat" where
  "dec_value s = foldl (\<lambda>n c. n * 10 + (of_char c - 48)) 0 s"

lemma dec_value_nat_dec: "dec_value (nat_dec n) = n"
proof (induction n rule: nat_dec.induct)
  case (1 n)
  show ?case
  proof (cases "n < 10")
    case True
    then show ?thesis by (simp add: nat_dec.simps [of n] dec_value_def)
  next
    case False
    with 1 show ?thesis by (simp add: nat_dec.simps [of n] dec_value_def)
  qed
qed

lemma nat_dec_inj: "nat_dec a = nat_dec b \<longleftrightarrow> a = b"
  by (metis dec_value_nat_dec)

lemma parse_key_hex [simp]: "parse_key (pubkey_to_hex k) = Inr k"
  by (simp add: parse_key_def pubkey_from_hex_def pubkey_to_hex_def)

lemma parse_digest_hex [simp]: "parse_digest (digest_to_hex d) = Inr d"
  by (simp add: parse_digest_def digest_from_hex_def digest_to_hex_def)

lemma parse_digests_hex [simp]: "parse_digests (map digest_to_hex ds) = Inr ds"
  by (induction ds) simp_all

lemma parse_digests_length: "parse_digests ss = Inr ds \<Longrightarrow> length ds = length ss"
  by (induction ss arbitrary: ds) (auto simp: res_simps)

lemma parse_digests_nth: "parse_digests ss = Inr ds \<Longrightarrow> i < length ss \<Longrightarrow> parse_digest (ss ! i) = Inr (ds ! i)"
proof (induction ss arbitrary: ds i)
  case (Cons s ss)
  then show ?case by (cases i) (auto simp: res_simps)
qed simp

text \<open>The two parsers accept the same texts and fail with the same error text.\<close>

definition hex32 :: "string \<Rightarrow> bool" where
  "hex32 s \<longleftrightarrow> \<not> isl (decode_hex s :: domain_error + 32 bytes)"

definition bad_hex32 :: string where
  "bad_hex32 = ''invalid hex (expected 32 bytes)''"

lemma decode_hex32_error: "(decode_hex s :: domain_error + 32 bytes) = Inl e \<Longrightarrow> e = InvalidHex 32"
  using decode_loop_Inl_iff [of "strip_0x s" 0 "arr_fill 0 :: 32 bytes" e]
  by (auto simp: decode_hex_def Let_def split: if_splits)

lemma nat_dec_32: "nat_dec 32 = ''32''"
  by (simp add: nat_dec.simps char_eq_iff_of_char)

lemma parse_bad:
  "parse_key s = (if hex32 s then Inr (Pubkey (projr (decode_hex s))) else Inl bad_hex32)"
  "parse_digest s = (if hex32 s then Inr (Digest (projr (decode_hex s))) else Inl bad_hex32)"
  using decode_hex32_error [of s]
  by (cases "decode_hex s :: domain_error + 32 bytes";
      auto simp: parse_key_def parse_digest_def pubkey_from_hex_def digest_from_hex_def hex32_def
        display_domain_def bad_hex32_def nat_dec_32)+

lemma parse_digests_bad:
  "parse_digests ss = (if list_all hex32 ss then Inr (map (\<lambda>s. Digest (projr (decode_hex s))) ss)
     else Inl bad_hex32)"
  by (induction ss) (auto simp: parse_bad)

section \<open>Properties\<close>

text \<open>
  C22 Through the API: after a successful \<open>buildTree\<close>, the \<open>proof\<close> query for any index of
  the given leaves returns the leaf that was given there, and sending its fields back to
  \<open>verifyProof\<close>, the direction bits read as the number they print, returns true.
\<close>

theorem api_proof_verifies:
  assumes "engine_ports P ids0 ids_ok iss0 iss_ok trees0"
    and "run_requests K m P (empty_engine ids0 iss0 trees0) before = Some (xs, E)"
    and "mutate_build_tree K P E issuer leaves = Some (Inr root, E1)"
    and "unat index < length leaves" and "length leaves \<le> 2 ^ 64"
  shows "\<exists>dto. query_proof K m P E1 issuer index = Some (Inr dto) \<and>
    parse_digest (pd_leaf dto) = parse_digest (leaves ! unat index) \<and>
    (\<forall>bits. nat_dec (unat bits) = pd_index_bits dto \<longrightarrow>
      (\<exists>E2. mutate_verify_proof K m P E1 issuer (pd_leaf dto) (pd_siblings dto) bits =
        Some (Inr True, E2)))"
proof -
  obtain k ls where k: "parse_key issuer = Inr k" and ls: "parse_digests leaves = Inr ls"
    using assms(3) by (auto simp: mutate_build_tree_def res_simps split: sum.splits)
  then obtain d where built: "build_tree K P E k ls = Some (Inr d, E1)"
    using assms(3) by (auto simp: mutate_build_tree_def res_simps)
  have len: "length ls = length leaves" using ls by (rule parse_digests_length)
  have ok: "engine_ports.engine_ok ids_ok iss_ok E"
    using engine_ports.runs_ok [OF assms(1) engine_ports.empty_ok [OF assms(1)] assms(2)] .
  note co = engine_ports.build_coherent [OF assms(1) ok built]
  obtain pf where pf: "prove K m P E1 k (unat index) = Some (Inr pf)" "mp_leaf pf = ls ! unat index"
    "verify_proof K m P E1 k pf = Some (Inr True, publish E1 (ProofVerified k True))"
    using engine_ports.coherent_prove [OF assms(1) co(2), of "unat index" m] assms(4,5) len by auto
  have "query_proof K m P E1 issuer index = Some (Inr (proof_to_dto pf))"
    using k pf(1) by (simp add: query_proof_def)
  moreover have "parse_digest (pd_leaf (proof_to_dto pf)) = parse_digest (leaves ! unat index)"
    using pf(2) parse_digests_nth [OF ls assms(4)] by (simp add: proof_to_dto_def)
  moreover have "mutate_verify_proof K m P E1 issuer (pd_leaf (proof_to_dto pf))
      (pd_siblings (proof_to_dto pf)) (mp_index_bits pf) =
      Some (Inr True, publish E1 (ProofVerified k True))"
    using k pf(3) by (cases pf) (simp add: mutate_verify_proof_def proof_to_dto_def)
  ultimately show ?thesis
    by (auto simp: proof_to_dto_def nat_dec_inj simp flip: word_unat_eq_iff)
qed

theorem api_proof_verifies_witness:
  "\<exists>dto. query_proof trunc_keccak Checked test_ports demo_E2 (pubkey_to_hex (Pubkey (arr_fill 0xEE))) 1 =
     Some (Inr dto) \<and> parse_digest (pd_leaf dto) = Inr (Digest (arr_fill 4))"
proof -
  have "mutate_build_tree trunc_keccak test_ports demo_E1 (pubkey_to_hex (Pubkey (arr_fill 0xEE)))
      (map digest_to_hex demo_leaves) = Some (Inr (digest_to_hex (Digest (arr_fill 3))), demo_E2)"
    by (simp add: mutate_build_tree_def demo_build)
  from api_proof_verifies [OF test.engine_ports_axioms demo_ingest this, of 1] show ?thesis
    by (auto simp: demo_leaves_def)
qed

text \<open>
  Malformed input: a mutation of which any key or digest is not the hexadecimal text of
  32 bytes returns the error text \<open>invalid hex (expected 32 bytes)\<close> and has no effect, over
  any ports.
\<close>

lemma malformed_input_refused:
  "(\<not> list_all hex32 (issuer # leaves) \<longrightarrow>
     mutate_build_tree K P E issuer leaves = Some (Inl bad_hex32, E)) \<and>
   (\<not> list_all hex32 (issuer # leaf # siblings) \<longrightarrow>
     mutate_verify_proof K m P E issuer leaf siblings bits = Some (Inl bad_hex32, E)) \<and>
   (\<not> list_all hex32 [address, authority, schema] \<longrightarrow>
     mutate_ingest_issuer P E address authority schema = (Inl bad_hex32, E))"
  by (auto simp: mutate_build_tree_def mutate_verify_proof_def mutate_ingest_issuer_def
      parse_bad parse_digests_bad)

text \<open>
  Two API calls make the service panic: \<open>buildTree\<close> with no leaves succeeds for every
  known issuer, and then the \<open>proof\<close> query for index 0 indexes an empty list.
\<close>

lemma empty_tree_proof_panics:
  assumes "engine_ports P ids0 ids_ok iss0 iss_ok trees0"
    and "run_requests K m P (empty_engine ids0 iss0 trees0) before = Some (xs, E)"
    and "parse_key issuer = Inr k" and "store_map (p_issuers P) (eg_issuers E) k \<noteq> None"
  shows "\<exists>E1. mutate_build_tree K P E issuer [] = Some (Inr (digest_to_hex digest_zero), E1) \<and>
    query_proof K m' P E1 issuer 0 = None"
proof -
  obtain E1 where built: "build_tree K P E k [] = Some (Inr digest_zero, E1)"
    using assms(4) by (auto simp: engine_ports.build_tree_eq [OF assms(1)] root_of_def)
  have ok: "engine_ports.engine_ok ids_ok iss_ok E"
    using engine_ports.runs_ok [OF assms(1) engine_ports.empty_ok [OF assms(1)] assms(2)] .
  have "leaf_lookup (p_trees P) (eg_trees E1) k = Some []"
    using engine_ports.build_coherent(2) [OF assms(1) ok built] by (simp add: coherent_def service_of_def)
  then have "prove K m' P E1 k 0 = None"
    using engine_ports.prove_eq [OF assms(1), of E1 k K m' 0] by simp
  with built assms(3) show ?thesis
    by (simp add: mutate_build_tree_def query_proof_def)
qed

text \<open>
  Subscription events keep their data: the kind, subject, root and outcome of every
  event, and its count; for an indexed identity the count is the sum of its passkeys and
  attestations modulo \<open>2 ^ 32\<close>, and the conversion panics exactly when that sum does not
  fit and overflow checks are on.
\<close>

lemma event_dto_spec:
  "case ev of
     IdentityIndexed a p q \<Rightarrow>
       (event_to_dto m ev = None \<longleftrightarrow> m = Checked \<and> 2 ^ 32 \<le> unat p + unat q) \<and>
       (\<forall>dto. event_to_dto m ev = Some dto \<longrightarrow>
         ed_kind dto = ''identity_indexed'' \<and> ed_subject dto = pubkey_to_hex a \<and>
         map_option unat (ed_count dto) = Some ((unat p + unat q) mod 2 ^ 32))
   | IssuerIndexed a r \<Rightarrow> (\<exists>dto. event_to_dto m ev = Some dto \<and> ed_kind dto = ''issuer_indexed'' \<and>
       ed_subject dto = pubkey_to_hex a \<and> ed_root dto = Some (digest_to_hex r))
   | TreeBuilt a r n \<Rightarrow> (\<exists>dto. event_to_dto m ev = Some dto \<and> ed_kind dto = ''tree_built'' \<and>
       ed_subject dto = pubkey_to_hex a \<and> ed_root dto = Some (digest_to_hex r) \<and> ed_count dto = Some n)
   | ProofVerified a valid \<Rightarrow> (\<exists>dto. event_to_dto m ev = Some dto \<and> ed_kind dto = ''proof_verified'' \<and>
       ed_subject dto = pubkey_to_hex a \<and> ed_valid dto = Some valid)"
proof (cases ev)
  case (IdentityIndexed a p q)
  have "add_u32 m p q = None \<longleftrightarrow> m = Checked \<and> 2 ^ 32 \<le> unat p + unat q"
    by (cases m) (auto simp: add_u32_def checked_add_None checked_add_Some split: option.splits)
  moreover have "add_u32 m p q = Some c \<Longrightarrow> unat c = (unat p + unat q) mod 2 ^ 32" for c
    by (auto simp: add_u32_def checked_add_Some unat_word_ariths split: option.splits arith_mode.splits)
  ultimately show ?thesis
    using IdentityIndexed by auto
qed auto

end
