(* ===== verification/Resilience.thy ===== *)
theory Resilience
  imports Prelude
begin

text \<open>
  The fault-tolerance primitives, \<open>resilience/src/lib.rs\<close>: the circuit breaker and the
  retry policy with its backoff. An operation that reads the clock takes the reading as an
  argument. A \<open>Duration\<close> is its number of nanoseconds. The lock around the state of the
  breaker makes every operation atomic.
\<close>

section \<open>Durations and clock readings\<close>

type_synonym duration = nat

definition DURATION_MAX :: duration where
  "DURATION_MAX = (2 ^ 64 - 1) * 10 ^ 9 + 999999999"

definition from_millis :: "nat \<Rightarrow> duration" where
  "from_millis ms = ms * 10 ^ 6"

text \<open>\<open>d.as_millis() as u64\<close>, \<open>d.saturating_mul(k)\<close> and \<open>u64::saturating_sub\<close>.\<close>

definition as_millis_u64 :: "duration \<Rightarrow> u64" where
  "as_millis_u64 d = of_nat (d div 10 ^ 6)"

definition saturating_mul :: "duration \<Rightarrow> nat \<Rightarrow> duration" where
  "saturating_mul d k = min (d * k) DURATION_MAX"

definition saturating_sub :: "u64 \<Rightarrow> u64 \<Rightarrow> u64" where
  "saturating_sub a b = (if b \<le> a then a - b else 0)"

lemma saturating_sub_unat: "unat (saturating_sub a b) = unat a - unat b"
  by (auto simp: saturating_sub_def unat_sub word_le_nat_alt)

section \<open>Circuit breaker\<close>

datatype breaker_state = Closed | Open | HalfOpen

record circuit_breaker =
  cb_threshold :: u32
  cb_cooldown_millis :: u64
  cb_state :: breaker_state
  cb_failures :: u32
  cb_opened_at :: u64

definition breaker_new :: "u32 \<Rightarrow> duration \<Rightarrow> circuit_breaker" where
  "breaker_new threshold cooldown =
     \<lparr>cb_threshold = threshold, cb_cooldown_millis = as_millis_u64 cooldown,
      cb_state = Closed, cb_failures = 0, cb_opened_at = 0\<rparr>"

text \<open>\<open>state\<close> may move the breaker from open to half-open; it returns the state it leaves.\<close>

definition breaker_get_state :: "u64 \<Rightarrow> circuit_breaker \<Rightarrow> breaker_state \<times> circuit_breaker" where
  "breaker_get_state now b =
     (let b = (if cb_state b = Open \<and>
                  cb_cooldown_millis b \<le> saturating_sub now (cb_opened_at b)
               then b\<lparr>cb_state := HalfOpen\<rparr> else b)
      in (cb_state b, b))"

datatype breaker_open = BreakerOpen

definition breaker_acquire :: "u64 \<Rightarrow> circuit_breaker \<Rightarrow> (breaker_open + unit) \<times> circuit_breaker" where
  "breaker_acquire now b =
     (let (s, b) = breaker_get_state now b in
      case s of Open \<Rightarrow> (Inl BreakerOpen, b) | _ \<Rightarrow> (Inr (), b))"

definition breaker_on_success :: "circuit_breaker \<Rightarrow> circuit_breaker" where
  "breaker_on_success b = b\<lparr>cb_failures := 0, cb_state := Closed\<rparr>"

text \<open>\<open>failures += 1\<close> panics at the top of \<open>u32\<close> where overflow is checked, else wraps.\<close>

definition breaker_on_failure :: "arith_mode \<Rightarrow> u64 \<Rightarrow> circuit_breaker \<Rightarrow> circuit_breaker panicking" where
  "breaker_on_failure m now b =
     (case (case checked_add (cb_failures b) 1 of
              Some f \<Rightarrow> Some f
            | None \<Rightarrow> (case m of Checked \<Rightarrow> None | Wrapping \<Rightarrow> Some (cb_failures b + 1))) of
        None \<Rightarrow> None
      | Some f \<Rightarrow>
          let b = b\<lparr>cb_failures := f\<rparr> in
          if cb_threshold b \<le> f
          then Some (b\<lparr>cb_state := Open, cb_opened_at := now\<rparr>)
          else Some b)"

section \<open>Retry policy\<close>

record retry_policy =
  rp_max_attempts :: u32
  rp_base_delay :: duration
  rp_max_delay :: duration

definition retry_default :: retry_policy where
  "retry_default =
     \<lparr>rp_max_attempts = 3, rp_base_delay = from_millis 50, rp_max_delay = from_millis 2000\<rparr>"

text \<open>
  \<open>half.mul_f64(seed as f64 / 1000.0)\<close> is floating-point: a parameter \<open>mul_milli\<close> that maps
  the duration and the seed to the product.
\<close>

definition backoff_seed :: "u32 \<Rightarrow> nat" where
  "backoff_seed attempt = unat ((of_nat (unat attempt) :: u64) * 2654435761) mod 1000"

definition backoff :: "(duration \<Rightarrow> nat \<Rightarrow> duration) \<Rightarrow> retry_policy \<Rightarrow> u32 \<Rightarrow> duration" where
  "backoff mul_milli p attempt =
     (let exp = min (saturating_mul (rp_base_delay p) (unat (push_bit (unat (min attempt 16)) (1 :: u32))))
                  (rp_max_delay p);
          half = exp div 2;
          jitter = mul_milli half (backoff_seed attempt)
      in half + jitter)"

text \<open>
  The loop of \<open>retry\<close>: \<open>outcome k\<close> is what the call number \<open>k\<close> of the operation returns.
  The result comes with the delays slept, in order. The attempt counter stays below
  \<open>max_attempts\<close>, so it cannot overflow.
\<close>

function retry_loop ::
    "(duration \<Rightarrow> nat \<Rightarrow> duration) \<Rightarrow> retry_policy \<Rightarrow> (nat \<Rightarrow> 'e + 'a) \<Rightarrow> nat \<Rightarrow>
     ('e + 'a) \<times> duration list" where
  "retry_loop mul_milli p outcome attempt =
     (case outcome attempt of
        Inr v \<Rightarrow> (Inr v, [])
      | Inl e \<Rightarrow>
          if unat (rp_max_attempts p) \<le> attempt + 1 then (Inl e, [])
          else
            let (r, delays) = retry_loop mul_milli p outcome (attempt + 1) in
            (r, backoff mul_milli p (of_nat attempt) # delays))"
  by pat_completeness auto
termination
  by (relation "measure (\<lambda>(mul_milli, p, outcome, attempt). unat (rp_max_attempts p) - attempt)") auto

declare retry_loop.simps [simp del]

definition retry ::
    "(duration \<Rightarrow> nat \<Rightarrow> duration) \<Rightarrow> retry_policy \<Rightarrow> (nat \<Rightarrow> 'e + 'a) \<Rightarrow> ('e + 'a) \<times> duration list" where
  "retry mul_milli p outcome = retry_loop mul_milli p outcome 0"

section \<open>Histories of a breaker\<close>

text \<open>The calls on a breaker, each with the clock reading it makes.\<close>

datatype breaker_op = AskState u64 | Acquire u64 | Success | Failure u64

fun breaker_step :: "arith_mode \<Rightarrow> circuit_breaker \<Rightarrow> breaker_op \<Rightarrow> circuit_breaker panicking" where
  "breaker_step m b (AskState now) = Some (snd (breaker_get_state now b))"
| "breaker_step m b (Acquire now) = Some (snd (breaker_acquire now b))"
| "breaker_step m b Success = Some (breaker_on_success b)"
| "breaker_step m b (Failure now) = breaker_on_failure m now b"

fun breaker_run :: "arith_mode \<Rightarrow> circuit_breaker \<Rightarrow> breaker_op list \<Rightarrow> circuit_breaker panicking" where
  "breaker_run m b [] = Some b"
| "breaker_run m b (op # ops) = Option.bind (breaker_step m b op) (\<lambda>b'. breaker_run m b' ops)"

text \<open>What a history says: the failures since the last success and the time of the last.\<close>

fun failures_since :: "breaker_op list \<Rightarrow> nat \<Rightarrow> nat" where
  "failures_since [] n = n"
| "failures_since (Success # ops) n = failures_since ops 0"
| "failures_since (Failure _ # ops) n = failures_since ops (n + 1)"
| "failures_since (_ # ops) n = failures_since ops n"

fun last_failure :: "breaker_op list \<Rightarrow> u64 \<Rightarrow> u64" where
  "last_failure [] t = t"
| "last_failure (Failure now # ops) t = last_failure ops now"
| "last_failure (_ # ops) t = last_failure ops t"

text \<open>The breaker agrees with a history of \<open>n\<close> failures, the last at \<open>t\<close>.\<close>

definition breaker_agrees :: "circuit_breaker \<Rightarrow> nat \<Rightarrow> u64 \<Rightarrow> bool" where
  "breaker_agrees b n t \<longleftrightarrow>
     0 < cb_threshold b \<and> unat (cb_failures b) = n \<and>
     (cb_state b = Closed \<longleftrightarrow> n < unat (cb_threshold b)) \<and>
     (cb_state b \<noteq> Closed \<longrightarrow> cb_opened_at b = t)"

lemma acquire_get_state: "snd (breaker_acquire now b) = snd (breaker_get_state now b)"
  by (auto simp: breaker_acquire_def split: prod.splits breaker_state.splits)

lemma get_state_agrees: "breaker_agrees b n t \<Longrightarrow> breaker_agrees (snd (breaker_get_state now b)) n t"
  by (auto simp: breaker_agrees_def breaker_get_state_def Let_def)

lemma success_agrees: "breaker_agrees b n t \<Longrightarrow> breaker_agrees (breaker_on_success b) 0 t"
  by (auto simp: breaker_agrees_def breaker_on_success_def word_less_nat_alt)

lemma failure_agrees:
  assumes "breaker_agrees b n t" and "breaker_on_failure Checked now b = Some b'"
  shows "breaker_agrees b' (n + 1) now"
proof -
  from assms(2) obtain f where f: "checked_add (cb_failures b) 1 = Some f"
    and b': "b' = (if cb_threshold b \<le> f then b\<lparr>cb_failures := f, cb_state := Open, cb_opened_at := now\<rparr>
      else b\<lparr>cb_failures := f\<rparr>)"
    by (auto simp: breaker_on_failure_def Let_def split: option.splits if_splits)
  have "unat f = unat (cb_failures b) + 1" using checked_add_unat [OF f] by simp
  with assms(1) show ?thesis
    by (auto simp: b' breaker_agrees_def word_le_nat_alt)
qed

lemma run_agrees:
  "breaker_run Checked b ops = Some b' \<Longrightarrow> breaker_agrees b n t \<Longrightarrow>
     breaker_agrees b' (failures_since ops n) (last_failure ops t) \<and>
     cb_threshold b' = cb_threshold b \<and> cb_cooldown_millis b' = cb_cooldown_millis b"
proof (induction ops arbitrary: b n t)
  case Nil
  then show ?case by simp
next
  case (Cons op ops)
  then obtain b1 where step: "breaker_step Checked b op = Some b1" and run: "breaker_run Checked b1 ops = Some b'"
    by (auto simp: bind_eq_Some_conv)
  have same: "cb_threshold b1 = cb_threshold b \<and> cb_cooldown_millis b1 = cb_cooldown_millis b"
    using step by (cases op) (auto simp: acquire_get_state breaker_get_state_def breaker_on_success_def
        breaker_on_failure_def Let_def split: option.splits if_splits)
  show ?case
  proof (cases op)
    case (AskState now)
    with step Cons.IH [OF run] get_state_agrees [OF Cons.prems(2), of now] same show ?thesis
      by simp
  next
    case (Acquire now)
    with step Cons.IH [OF run] get_state_agrees [OF Cons.prems(2), of now] same show ?thesis
      by (simp add: acquire_get_state)
  next
    case Success
    with step Cons.IH [OF run] success_agrees [OF Cons.prems(2)] same show ?thesis by simp
  next
    case (Failure now)
    with step Cons.IH [OF run] failure_agrees [OF Cons.prems(2), of now b1] same show ?thesis
      by simp
  qed
qed

lemma new_agrees: "0 < threshold \<Longrightarrow> breaker_agrees (breaker_new threshold cooldown) 0 0"
  by (simp add: breaker_agrees_def breaker_new_def word_less_nat_alt)

section \<open>The retry loop\<close>

text \<open>From any attempt on, the loop returns the first success or the last allowed failure.\<close>

lemma retry_loop_eq:
  assumes "attempt < n" and "n = max 1 (unat (rp_max_attempts p))"
  shows "retry_loop mul p outcome attempt =
    (case List.find (\<lambda>k. \<not> isl (outcome k)) [attempt..<n] of
       Some k \<Rightarrow> (outcome k, map (\<lambda>i. backoff mul p (of_nat i)) [attempt..<k])
     | None \<Rightarrow> (outcome (n - 1), map (\<lambda>i. backoff mul p (of_nat i)) [attempt..<n - 1]))"
  using assms
proof (induction "n - attempt" arbitrary: attempt)
  case 0
  then show ?case by linarith
next
  case (Suc d)
  have upt: "[attempt..<n] = attempt # [Suc attempt..<n]"
    using Suc.prems by (simp add: upt_conv_Cons)
  show ?case
  proof (cases "outcome attempt")
    case (Inr v)
    then show ?thesis by (simp add: retry_loop.simps [of mul p outcome attempt] upt)
  next
    case (Inl e)
    show ?thesis
    proof (cases "Suc attempt < n")
      case False
      with Suc.prems have "n = Suc attempt" "unat (rp_max_attempts p) \<le> attempt + 1" by auto
      with Inl show ?thesis by (simp add: retry_loop.simps [of mul p outcome attempt])
    next
      case True
      have le: "Suc attempt \<le> k" if "List.find (\<lambda>k. \<not> isl (outcome k)) [Suc attempt..<n] = Some k" for k
        using that by (auto simp: find_Some_iff)
      have "retry_loop mul p outcome (Suc attempt) =
        (case List.find (\<lambda>k. \<not> isl (outcome k)) [Suc attempt..<n] of
           Some k \<Rightarrow> (outcome k, map (\<lambda>i. backoff mul p (of_nat i)) [Suc attempt..<k])
         | None \<Rightarrow> (outcome (n - 1), map (\<lambda>i. backoff mul p (of_nat i)) [Suc attempt..<n - 1]))"
        using Suc True by (intro Suc.hyps(1)) auto
      moreover have "\<not> unat (rp_max_attempts p) \<le> attempt + 1"
        using True Suc.prems by auto
      ultimately show ?thesis
        using Inl True le
        by (auto simp: retry_loop.simps [of mul p outcome attempt] upt upt_conv_Cons [of attempt]
            split: option.splits)
    qed
  qed
qed

section \<open>Properties\<close>

text \<open>
  C34 The breaker and its history: after any calls on a new breaker with a positive
  threshold, in a build with overflow checks, it is closed exactly while fewer than
  \<open>threshold\<close> failures have been recorded since the last success, and otherwise its
  cooldown runs from the last failure.
\<close>

theorem breaker_tracks_failures:
  assumes "0 < threshold"
    and "breaker_run Checked (breaker_new threshold cooldown) ops = Some b"
  shows "(cb_state b = Closed \<longleftrightarrow> failures_since ops 0 < unat threshold) \<and>
    unat (cb_failures b) = failures_since ops 0 \<and>
    (cb_state b \<noteq> Closed \<longrightarrow> cb_opened_at b = last_failure ops 0)"
  using run_agrees [OF assms(2) new_agrees [OF assms(1)]]
  by (simp add: breaker_agrees_def breaker_new_def)

theorem breaker_tracks_failures_witness:
  "cb_state (the (breaker_run Checked (breaker_new 2 (from_millis 100)) [Failure 5, Failure 7])) \<noteq> Closed"
proof -
  obtain b where run: "breaker_run Checked (breaker_new 2 (from_millis 100)) [Failure 5, Failure 7] = Some b"
    by (simp add: breaker_new_def breaker_on_failure_def checked_add_def Let_def)
  from breaker_tracks_failures [OF _ this] show ?thesis unfolding run by simp
qed

text \<open>
  Admission: \<open>acquire\<close> refuses exactly when the breaker is open and less than the
  cooldown has passed since it opened (a clock that went back counts as no time); it moves
  an open breaker to half-open when it admits, and changes nothing else.
\<close>

lemma breaker_admission:
  "(fst (breaker_acquire now b) = Inl BreakerOpen \<longleftrightarrow>
      cb_state b = Open \<and> unat now - unat (cb_opened_at b) < unat (cb_cooldown_millis b)) \<and>
   snd (breaker_acquire now b) =
     (if cb_state b = Open \<and> fst (breaker_acquire now b) = Inr () then b\<lparr>cb_state := HalfOpen\<rparr> else b)"
  by (cases "cb_state b")
    (auto simp: breaker_acquire_def breaker_get_state_def Let_def word_le_nat_alt saturating_sub_unat)

text \<open>
  A half-open breaker does not limit itself to one probe: once the cooldown has elapsed,
  any number of \<open>acquire\<close> calls at any times succeed until one of their results is recorded.
\<close>

lemma half_open_admits_all:
  assumes "cb_state b = Open" and "unat (cb_cooldown_millis b) \<le> unat now - unat (cb_opened_at b)"
  shows "fst (breaker_acquire now b) = Inr () \<and>
    (\<exists>b'. breaker_run m b (Acquire now # map Acquire ts) = Some b' \<and>
      cb_state b' = HalfOpen \<and> (\<forall>t. fst (breaker_acquire t b') = Inr ()))"
proof -
  let ?b = "b\<lparr>cb_state := HalfOpen\<rparr>"
  have now: "breaker_acquire now b = (Inr (), ?b)"
    using assms by (simp add: breaker_acquire_def breaker_get_state_def Let_def word_le_nat_alt saturating_sub_unat)
  have half: "breaker_acquire t ?b = (Inr (), ?b)" for t
    by (simp add: breaker_acquire_def breaker_get_state_def)
  have "breaker_run m ?b (map Acquire ts) = Some ?b"
    by (induction ts) (simp_all add: half)
  with now half show ?thesis by simp
qed

text \<open>
  C38 The retry loop terminates and returns the first success among the first
  \<open>max(1, max_attempts)\<close> calls, or else the error of the last of them; between two calls it
  sleeps the backoff of the earlier one. With \<open>max_attempts = 0\<close> it still calls once.
\<close>

theorem retry_spec:
  "retry mul_milli p outcome =
     (let n = max 1 (unat (rp_max_attempts p)) in
      case List.find (\<lambda>k. \<not> isl (outcome k)) [0..<n] of
        Some k \<Rightarrow> (outcome k, map (\<lambda>i. backoff mul_milli p (of_nat i)) [0..<k])
      | None \<Rightarrow> (outcome (n - 1), map (\<lambda>i. backoff mul_milli p (of_nat i)) [0..<n - 1]))"
  unfolding retry_def Let_def by (rule retry_loop_eq) simp_all

text \<open>
  Bounds of the backoff: it never exceeds \<open>max_delay\<close>, and is at least half of the
  capped exponential delay \<open>base * 2 ^ min(attempt, 16)\<close>; no step of the computation
  overflows. Of the floating-point product it needs only that multiplying by a factor below
  one does not increase the duration.
\<close>

lemma backoff_bounded:
  assumes "\<And>d k. k < 1000 \<Longrightarrow> mul_milli d k \<le> d" and "rp_max_delay p \<le> DURATION_MAX"
  shows "backoff mul_milli p attempt \<le> rp_max_delay p \<and>
    min (rp_base_delay p * 2 ^ min (unat attempt) 16) (rp_max_delay p) div 2 \<le> backoff mul_milli p attempt"
proof -
  let ?exp = "min (rp_base_delay p * 2 ^ min (unat attempt) 16) (rp_max_delay p)"
  let ?j = "mul_milli (?exp div 2) (backoff_seed attempt)"
  have m: "unat (min attempt 16) = min (unat attempt) 16"
    by (simp add: min_def word_le_nat_alt)
  have "(2 :: nat) ^ min (unat attempt) 16 \<le> 2 ^ 16" by (intro power_increasing) simp_all
  then have "unat (push_bit (unat (min attempt 16)) (1 :: u32)) = 2 ^ min (unat attempt) 16"
    using unat_of_nat [of "2 ^ min (unat attempt) 16", where 'a = 32] unfolding m push_bit_of_1 by simp
  then have "backoff mul_milli p attempt = ?exp div 2 + ?j"
    using assms(2) by (simp add: backoff_def Let_def saturating_mul_def min_def)
  moreover have "?j \<le> ?exp div 2"
    by (rule assms(1)) (simp add: backoff_seed_def)
  moreover have "?exp \<le> rp_max_delay p" by simp
  ultimately show ?thesis by linarith
qed

end
