(* ===== verification/Limiter.thy ===== *)
theory Limiter
  imports Complex_Main Resilience
begin

text \<open>
  The token-bucket rate limiter of \<open>resilience/src/lib.rs\<close>. Its tokens are \<open>f64\<close> values: the
  operations on them are a parameter, with the contract that IEEE 754 prescribes: exact on the
  whole numbers up to \<open>2 ^ 53\<close> (\<open>f64_exact\<close>), and with a relative rounding error of at most
  \<open>u\<close> within the range (\<open>f64_round\<close>). As for the breaker, a call takes the clock reading
  that it makes as an argument.
\<close>

section \<open>Model\<close>

record 'f f64_ops =
  f_of :: "nat \<Rightarrow> 'f"
  f_add :: "'f \<Rightarrow> 'f \<Rightarrow> 'f"
  f_sub :: "'f \<Rightarrow> 'f \<Rightarrow> 'f"
  f_mul :: "'f \<Rightarrow> 'f \<Rightarrow> 'f"
  f_div :: "'f \<Rightarrow> 'f \<Rightarrow> 'f"
  f_min :: "'f \<Rightarrow> 'f \<Rightarrow> 'f"
  f_ge :: "'f \<Rightarrow> 'f \<Rightarrow> bool"

datatype rate_limited = RateLimited

record 'f rate_limiter =
  rl_capacity :: 'f
  rl_refill_per_sec :: 'f
  rl_tokens :: 'f
  rl_last_refill :: u64

definition limiter_new :: "u64 \<Rightarrow> 'f \<Rightarrow> 'f \<Rightarrow> 'f rate_limiter" where
  "limiter_new now capacity refill_per_sec =
     \<lparr>rl_capacity = capacity, rl_refill_per_sec = refill_per_sec, rl_tokens = capacity,
      rl_last_refill = now\<rparr>"

definition try_acquire_n ::
    "'f f64_ops \<Rightarrow> u64 \<Rightarrow> 'f \<Rightarrow> 'f rate_limiter \<Rightarrow> (rate_limited + unit) \<times> 'f rate_limiter" where
  "try_acquire_n F now n g =
     (let elapsed = f_div F (f_of F (unat (saturating_sub now (rl_last_refill g)))) (f_of F 1000);
          g = g\<lparr>rl_tokens := f_min F (f_add F (rl_tokens g) (f_mul F elapsed (rl_refill_per_sec g)))
                  (rl_capacity g)\<rparr>;
          g = g\<lparr>rl_last_refill := now\<rparr>
      in if f_ge F (rl_tokens g) n
         then (Inr (), g\<lparr>rl_tokens := f_sub F (rl_tokens g) n\<rparr>)
         else (Inl RateLimited, g))"

definition try_acquire ::
    "'f f64_ops \<Rightarrow> u64 \<Rightarrow> 'f rate_limiter \<Rightarrow> (rate_limited + unit) \<times> 'f rate_limiter" where
  "try_acquire F now g = try_acquire_n F now (f_of F 1) g"

text \<open>The results of one call per clock reading.\<close>

fun limiter_run :: "'f f64_ops \<Rightarrow> 'f rate_limiter \<Rightarrow> u64 list \<Rightarrow> (rate_limited + unit) list" where
  "limiter_run F g [] = []"
| "limiter_run F g (now # ts) = (let (r, g') = try_acquire F now g in r # limiter_run F g' ts)"

section \<open>The bucket over whole numbers\<close>

text \<open>
  The specification: \<open>k\<close> tokens of at most \<open>c\<close>, last refilled at second \<open>l\<close>; every second
  adds \<open>r\<close> tokens, a call takes one.
\<close>

fun bucket_run :: "nat \<Rightarrow> nat \<Rightarrow> nat \<Rightarrow> nat \<Rightarrow> nat list \<Rightarrow> bool list" where
  "bucket_run c r k l [] = []"
| "bucket_run c r k l (s # ss) =
     (let k' = min (k + (s - l) * r) c in (0 < k') # bucket_run c r (k' - 1) s ss)"

text \<open>Exactness of the arithmetic on whole numbers.\<close>

definition f64_exact :: "'f f64_ops \<Rightarrow> bool" where
  "f64_exact F \<longleftrightarrow>
     (\<forall>a b. a + b \<le> 2 ^ 53 \<longrightarrow>
        f_add F (f_of F a) (f_of F b) = f_of F (a + b) \<and>
        f_sub F (f_of F (a + b)) (f_of F b) = f_of F a) \<and>
     (\<forall>a b. a * b \<le> 2 ^ 53 \<longrightarrow>
        f_mul F (f_of F a) (f_of F b) = f_of F (a * b) \<and>
        (0 < b \<longrightarrow> f_div F (f_of F (a * b)) (f_of F b) = f_of F a)) \<and>
     (\<forall>a b. a \<le> 2 ^ 53 \<longrightarrow> b \<le> 2 ^ 53 \<longrightarrow>
        f_min F (f_of F a) (f_of F b) = f_of F (min a b) \<and>
        (f_ge F (f_of F a) (f_of F b) \<longleftrightarrow> b \<le> a))"

lemma f64_exactD:
  assumes "f64_exact F"
  shows "a + b \<le> 2 ^ 53 \<Longrightarrow> f_add F (f_of F a) (f_of F b) = f_of F (a + b)"
    and "b \<le> a \<Longrightarrow> a \<le> 2 ^ 53 \<Longrightarrow> f_sub F (f_of F a) (f_of F b) = f_of F (a - b)"
    and "a * b \<le> 2 ^ 53 \<Longrightarrow> f_mul F (f_of F a) (f_of F b) = f_of F (a * b)"
    and "a * b \<le> 2 ^ 53 \<Longrightarrow> 0 < b \<Longrightarrow> f_div F (f_of F (a * b)) (f_of F b) = f_of F a"
    and "a \<le> 2 ^ 53 \<Longrightarrow> b \<le> 2 ^ 53 \<Longrightarrow> f_min F (f_of F a) (f_of F b) = f_of F (min a b)"
    and "a \<le> 2 ^ 53 \<Longrightarrow> b \<le> 2 ^ 53 \<Longrightarrow> f_ge F (f_of F a) (f_of F b) \<longleftrightarrow> b \<le> a"
proof -
  show "b \<le> a \<Longrightarrow> a \<le> 2 ^ 53 \<Longrightarrow> f_sub F (f_of F a) (f_of F b) = f_of F (a - b)"
    using assms [unfolded f64_exact_def, THEN conjunct1, rule_format, of "a - b" b] by simp
qed (use assms in \<open>simp_all add: f64_exact_def\<close>)

text \<open>The milliseconds of second \<open>s\<close> after the start.\<close>

definition at_second :: "nat \<Rightarrow> nat \<Rightarrow> u64" where
  "at_second t0 s = of_nat (t0 + 1000 * s)"

lemma unat_at_second: "t0 + 1000 * s < 2 ^ 64 \<Longrightarrow> unat (at_second t0 s) = t0 + 1000 * s"
  by (simp add: at_second_def unat_of_nat del: of_nat_add of_nat_mult)

lemma at_second_diff:
  assumes "t0 + 1000 * s < 2 ^ 64" and "t0 + 1000 * l < 2 ^ 64"
  shows "unat (saturating_sub (at_second t0 s) (at_second t0 l)) = (s - l) * 1000"
  using assms by (simp add: saturating_sub_unat unat_at_second diff_mult_distrib)

lemma limiter_step:
  assumes "f64_exact F" and "k \<le> c" and "t0 + 1000 * s < 2 ^ 64" and "t0 + 1000 * l < 2 ^ 64"
    and "c + r * s \<le> 2 ^ 53" and "1000 * s \<le> 2 ^ 53"
  shows "try_acquire F (at_second t0 s)
      \<lparr>rl_capacity = f_of F c, rl_refill_per_sec = f_of F r, rl_tokens = f_of F k,
       rl_last_refill = at_second t0 l\<rparr> =
    (if 0 < min (k + (s - l) * r) c then Inr () else Inl RateLimited,
     \<lparr>rl_capacity = f_of F c, rl_refill_per_sec = f_of F r,
      rl_tokens = f_of F (min (k + (s - l) * r) c - 1), rl_last_refill = at_second t0 s\<rparr>)"
proof -
  note exact = f64_exactD [OF assms(1)]
  let ?k = "min (k + (s - l) * r) c"
  have "(s - l) * r \<le> r * s" by simp
  then have b: "k + (s - l) * r \<le> 2 ^ 53" "(s - l) * r \<le> 2 ^ 53" "c \<le> 2 ^ 53" "?k \<le> 2 ^ 53"
    using assms(2,5) by linarith+
  have "(s - l) * 1000 \<le> 2 ^ 53" using assms(6) by linarith
  then have "f_div F (f_of F ((s - l) * 1000)) (f_of F 1000) = f_of F (s - l)"
    by (intro exact(4)) simp_all
  then have tokens: "f_min F (f_add F (f_of F k) (f_mul F (f_div F (f_of F ((s - l) * 1000)) (f_of F 1000))
      (f_of F r))) (f_of F c) = f_of F ?k"
    using b by (simp only: exact)
  have ge: "f_ge F (f_of F ?k) (f_of F 1) \<longleftrightarrow> 0 < ?k"
    using exact(6) [OF b(4), of 1] Suc_le_eq [of 0 ?k] by (simp only: One_nat_def) simp
  have sub: "0 < ?k \<Longrightarrow> f_sub F (f_of F ?k) (f_of F 1) = f_of F (?k - 1)"
    by (intro exact(2) [OF _ b(4)]) (simp only: Suc_le_eq One_nat_def)
  show ?thesis
    using ge sub unfolding try_acquire_def try_acquire_n_def Let_def
    by (simp add: at_second_diff [OF assms(3,4)] tokens del: min_less_iff_conj)
qed

lemma limiter_is_bucket:
  assumes "f64_exact F" and "k \<le> c" and "t0 + 1000 * l < 2 ^ 64"
    and "\<forall>s \<in> set ss. t0 + 1000 * s < 2 ^ 64 \<and> c + r * s \<le> 2 ^ 53 \<and> 1000 * s \<le> 2 ^ 53"
  shows "limiter_run F \<lparr>rl_capacity = f_of F c, rl_refill_per_sec = f_of F r, rl_tokens = f_of F k,
      rl_last_refill = at_second t0 l\<rparr> (map (at_second t0) ss) =
    map (\<lambda>ok. if ok then Inr () else Inl RateLimited) (bucket_run c r k l ss)"
  using assms(2-)
proof (induction ss arbitrary: k l)
  case (Cons s ss)
  let ?k = "min (k + (s - l) * r) c"
  have "limiter_run F \<lparr>rl_capacity = f_of F c, rl_refill_per_sec = f_of F r,
      rl_tokens = f_of F (?k - 1), rl_last_refill = at_second t0 s\<rparr> (map (at_second t0) ss) =
    map (\<lambda>ok. if ok then Inr () else Inl RateLimited) (bucket_run c r (?k - 1) s ss)"
    using Cons.prems by (intro Cons.IH) auto
  moreover note limiter_step [OF assms(1) Cons.prems(1), of t0 s l r]
  ultimately show ?case using Cons.prems by (simp add: Let_def)
qed simp

section \<open>Counting grants\<close>

definition grants :: "(rate_limited + unit) list \<Rightarrow> nat" where
  "grants rs = length (filter (\<lambda>r. r = Inr ()) rs)"

lemma grants_bucket:
  "grants (map (\<lambda>ok. if ok then Inr () else Inl RateLimited) bs) = length (filter (\<lambda>b. b) bs)"
  by (induction bs) (simp_all add: grants_def)

lemma bucket_rate:
  "sorted (l # ss) \<Longrightarrow> length (filter (\<lambda>b. b) (bucket_run c r k l ss)) \<le> k + r * (last (l # ss) - l)"
proof (induction ss arbitrary: k l)
  case (Cons s ss)
  let ?k = "min (k + (s - l) * r) c"
  have le: "l \<le> s" "s \<le> last (s # ss)" "sorted (s # ss)"
    using Cons.prems by auto
  then have "last (s # ss) - l = last (s # ss) - s + (s - l)" by linarith
  then have split: "r * (last (s # ss) - l) = r * (last (s # ss) - s) + (s - l) * r"
    by (simp only: add_mult_distrib2 mult.commute [of r])
  have "length (filter (\<lambda>b. b) ((0 < q) # bucket_run c r (q - 1) s ss)) \<le>
      q + r * (last (s # ss) - s)" for q
    using Cons.IH [OF le(3), of "q - 1"] by (cases q) (simp_all del: last.simps)
  from this [of ?k] have "length (filter (\<lambda>b. b) (bucket_run c r k l (s # ss))) \<le>
      ?k + r * (last (s # ss) - s)"
    by (simp only: bucket_run.simps Let_def)
  also have "\<dots> \<le> k + r * (last (s # ss) - l)" unfolding split by linarith
  finally show ?case by simp
qed simp

lemma bucket_burst: "k \<le> c \<Longrightarrow> length (filter (\<lambda>b. b) (bucket_run c r k l (replicate n l))) = min n k"
proof (induction n arbitrary: k)
  case (Suc n)
  then show ?case by (cases k) (auto simp: Let_def)
qed simp

text \<open>Second 1 and second 0 in turns: every pair of readings refills the bucket.\<close>

lemma bucket_regression:
  "0 < c \<Longrightarrow> 0 < r \<Longrightarrow> n \<le> length (filter (\<lambda>b. b) (bucket_run c r k 0 (concat (replicate n [1, 0]))))"
proof (induction n arbitrary: k)
  case (Suc n)
  define k1 where "k1 = min (min (k + r) c - 1) c"
  have "bucket_run c r k 0 (concat (replicate (Suc n) [1, 0])) =
      True # (0 < k1) # bucket_run c r (k1 - 1) 0 (concat (replicate n [1, 0]))"
    using Suc.prems by (simp add: Let_def k1_def)
  then show ?case using Suc.IH [OF Suc.prems, of "k1 - 1"] by simp
qed simp

text \<open>An exact instance of the operations: the rational numbers.\<close>

definition rat_ops :: "rat f64_ops" where
  "rat_ops = \<lparr>f_of = of_nat, f_add = (+), f_sub = (-), f_mul = (*), f_div = (/), f_min = min,
     f_ge = (\<ge>)\<rparr>"

lemma rat_ops_exact: "f64_exact rat_ops"
  by (auto simp: f64_exact_def rat_ops_def min_def)

lemma limiter_new_bucket:
  assumes "f64_exact F" and "t0 < 2 ^ 64"
    and "\<forall>s \<in> set ss. t0 + 1000 * s < 2 ^ 64 \<and> c + r * s \<le> 2 ^ 53 \<and> 1000 * s \<le> 2 ^ 53"
  shows "grants (limiter_run F (limiter_new (of_nat t0) (f_of F c) (f_of F r)) (map (at_second t0) ss)) =
    length (filter (\<lambda>b. b) (bucket_run c r c 0 ss))"
  using limiter_is_bucket [where k = c and l = 0, OF assms(1) _ _ assms(3)] assms(2)
  by (simp add: limiter_new_def grants_bucket at_second_def)

section \<open>Rounding\<close>

text \<open>
  The contract of finite \<open>f64\<close> values, up to a relative error \<open>u\<close>, which is \<open>2 ^ -53\<close> for
  rounding to nearest: conversions and sums round and do not overflow below \<open>2 ^ 1023\<close>,
  differences round, and products and quotients round as long as they do not underflow.
\<close>

definition near :: "real \<Rightarrow> real \<Rightarrow> real \<Rightarrow> bool" where
  "near u x y \<longleftrightarrow> \<bar>y - x\<bar> \<le> u * x"

definition in_range :: "real \<Rightarrow> bool" where
  "in_range x \<longleftrightarrow> x = 0 \<or> (1 / 2) ^ 1022 \<le> x \<and> x \<le> 2 ^ 1023"

lemma in_range_nonneg: "in_range x \<Longrightarrow> 0 \<le> x"
  using zero_le_power [of "1 / 2 :: real" 1022] unfolding in_range_def by linarith

locale f64_round =
  fixes F :: "'f f64_ops" and val :: "'f \<Rightarrow> real" and fin :: "'f \<Rightarrow> bool" and u :: real
  assumes u_bounds: "0 \<le> u" "u \<le> 1 / 2"
    and exact: "f64_exact F"
    and of_exact: "n \<le> 2 ^ 53 \<Longrightarrow> val (f_of F n) = real n"
    and of_near: "n < 2 ^ 64 \<Longrightarrow> fin (f_of F n) \<and> near u (real n) (val (f_of F n))"
    and add_near: "fin a \<Longrightarrow> fin b \<Longrightarrow> 0 \<le> val a \<Longrightarrow> 0 \<le> val b \<Longrightarrow> val a + val b \<le> 2 ^ 1023 \<Longrightarrow>
      fin (f_add F a b) \<and> near u (val a + val b) (val (f_add F a b))"
    and sub_near: "fin a \<Longrightarrow> fin b \<Longrightarrow> 0 \<le> val b \<Longrightarrow> val b \<le> val a \<Longrightarrow>
      fin (f_sub F a b) \<and> near u (val a - val b) (val (f_sub F a b))"
    and mul_near: "fin a \<Longrightarrow> fin b \<Longrightarrow> in_range (val a * val b) \<Longrightarrow>
      fin (f_mul F a b) \<and> near u (val a * val b) (val (f_mul F a b))"
    and div_near: "fin a \<Longrightarrow> fin b \<Longrightarrow> 0 < val b \<Longrightarrow> in_range (val a / val b) \<Longrightarrow>
      fin (f_div F a b) \<and> near u (val a / val b) (val (f_div F a b))"
    and min_val: "fin a \<Longrightarrow> fin b \<Longrightarrow> fin (f_min F a b) \<and> val (f_min F a b) = min (val a) (val b)"
    and ge_val: "fin a \<Longrightarrow> fin b \<Longrightarrow> f_ge F a b \<longleftrightarrow> val b \<le> val a"

lemma nearD:
  assumes "near u x y" and "0 \<le> x" and "u \<le> 1 / 2"
  shows "y \<le> (1 + u) * x" and "x / 2 \<le> y"
proof -
  have "u * x \<le> 1 / 2 * x" using assms(2,3) by (intro mult_right_mono)
  then show "y \<le> (1 + u) * x" and "x / 2 \<le> y"
    using assms(1) by (auto simp: near_def distrib_right abs_le_iff)
qed

text \<open>The rates and capacities for which nothing overflows or underflows.\<close>

definition rate_ok :: "real \<Rightarrow> bool" where
  "rate_ok r \<longleftrightarrow> r = 0 \<or> (1 / 2) ^ 1000 \<le> r \<and> r \<le> 2 ^ 900"

lemma rate_ok_nonneg: "rate_ok r \<Longrightarrow> 0 \<le> r"
  using zero_le_power [of "1 / 2 :: real" 1000] unfolding rate_ok_def by linarith

context f64_round begin

lemma elapsed_near:
  assumes "d < 2 ^ 64"
  defines "e \<equiv> f_div F (f_of F d) (f_of F 1000)"
  shows "fin e" and "val e \<le> (1 + u) ^ 2 * (real d / 1000)" and "val e = 0 \<and> d = 0 \<or> (1 / 2) ^ 22 \<le> val e"
    and "val e \<le> 2 ^ 64"
proof -
  have k: "fin (f_of F 1000)" "val (f_of F 1000) = 1000"
    using of_near [of 1000] of_exact [of 1000] by simp_all
  have d: "fin (f_of F d)" "near u (real d) (val (f_of F d))" using of_near [OF assms(1)] by simp_all
  note d' = nearD [OF d(2) _ u_bounds(2), simplified]
  have "real d \<le> 2 ^ 64" using assms(1) by (metis less_imp_le of_nat_le_iff of_nat_numeral of_nat_power)
  have "(1 + u) * real d \<le> 3 / 2 * 2 ^ 64"
    using u_bounds \<open>real d \<le> 2 ^ 64\<close> by (intro mult_mono) auto
  with d'(1) have up: "val (f_of F d) \<le> 3 / 2 * 2 ^ 64" by linarith
  have low: "d = 0 \<and> val (f_of F d) = 0 \<or> 1 / 2 \<le> val (f_of F d)"
  proof (cases "d = 0")
    case True
    then show ?thesis using of_exact [of 0] by simp
  next
    case False
    then have "1 \<le> real d" by simp
    with d'(2) show ?thesis by linarith
  qed
  have "(1 / 2 :: real) ^ 1022 \<le> (1 / 2) ^ 11" by (intro power_decreasing) simp_all
  also have "\<dots> \<le> 1 / 2 / 1000" by (simp add: power_divide)
  finally have small: "(1 / 2 :: real) ^ 1022 \<le> 1 / 2 / 1000" .
  have "(3 / 2 * 2 ^ 64 / 1000 :: real) \<le> 2 ^ 64" by simp
  also have "\<dots> \<le> 2 ^ 1023" by (intro power_increasing) simp_all
  finally have large: "(3 / 2 * 2 ^ 64 / 1000 :: real) \<le> 2 ^ 1023" .
  have "in_range (val (f_of F d) / val (f_of F 1000))"
    unfolding k in_range_def using low up small large
    by auto
  from div_near [OF d(1) k(1) _ this] have e: "fin e" "near u (val (f_of F d) / 1000) (val e)"
    by (simp_all add: k e_def)
  have "0 \<le> val (f_of F d) / 1000" using low by auto
  note e' = nearD [OF e(2) this u_bounds(2)]
  show "fin e" by (rule e(1))
  have "(1 + u) * (val (f_of F d) / 1000) \<le> (1 + u) * ((1 + u) * real d / 1000)"
    using d'(1) u_bounds by (intro mult_left_mono divide_right_mono) auto
  with e'(1) show "val e \<le> (1 + u) ^ 2 * (real d / 1000)" by (simp add: power2_eq_square)
  show "val e = 0 \<and> d = 0 \<or> (1 / 2) ^ 22 \<le> val e"
  proof (cases "d = 0")
    case True
    with of_exact [of 0] e(2) show ?thesis by (simp add: near_def)
  next
    case False
    have "(1 / 2 :: real) ^ 22 \<le> 1 / 2 / 1000 / 2" by (simp add: power_divide)
    with False low e'(2) show ?thesis by linarith
  qed
  have "(1 + u) * (val (f_of F d) / 1000) \<le> 3 / 2 * (3 / 2 * 2 ^ 64 / 1000)"
    using up u_bounds low by (intro mult_mono divide_right_mono) auto
  with e'(1) show "val e \<le> 2 ^ 64" by simp
qed

text \<open>The tokens after the refill, and after a call.\<close>

lemma refill_near:
  assumes "fin k" and "fin c" and "fin r" and "0 \<le> val k" and "val k \<le> 2 ^ 1001" and "0 \<le> val c"
    and "rate_ok (val r)" and "d < 2 ^ 64"
  defines "t \<equiv> f_min F (f_add F k (f_mul F (f_div F (f_of F d) (f_of F 1000)) r)) c"
  shows "fin t" and "0 \<le> val t" and "val t \<le> val c"
    and "val t \<le> (1 + u) ^ 4 * (val k + val r * (real d / 1000))"
proof -
  define e where "e = f_div F (f_of F d) (f_of F 1000)"
  note e = elapsed_near [OF assms(8), folded e_def]
  have pos: "0 \<le> val e" "0 \<le> val r" "val r \<le> 2 ^ 900"
    using e(3) assms(7) by (auto simp: rate_ok_def elim: order.trans [rotated])
  have "val e * val r \<le> 2 ^ 64 * 2 ^ 900" using e(4) pos by (intro mult_mono) auto
  then have p_max: "val e * val r \<le> 2 ^ 964" by (simp flip: power_add)
  have "(2 :: real) ^ 964 \<le> 2 ^ 1023" by (intro power_increasing) simp_all
  with p_max have p_up: "val e * val r \<le> 2 ^ 1023" by linarith
  have "(1 / 2) ^ 22 * (1 / 2) ^ 1000 \<le> val e * val r" if "val e \<noteq> 0" "val r \<noteq> 0"
    using that e(3) assms(7) pos by (intro mult_mono) (auto simp: rate_ok_def)
  then have p_low: "val e \<noteq> 0 \<Longrightarrow> val r \<noteq> 0 \<Longrightarrow> (1 / 2) ^ 1022 \<le> val e * val r"
    by (simp flip: power_add)
  have "in_range (val e * val r)" using p_up p_low unfolding in_range_def by auto
  from mul_near [OF e(1) assms(3) this] have p: "fin (f_mul F e r)" "near u (val e * val r) (val (f_mul F e r))"
    by simp_all
  have "0 \<le> val e * val r" using pos by simp
  note p' = nearD [OF p(2) this u_bounds(2)]
  have p0: "0 \<le> val (f_mul F e r)" using p'(2) \<open>0 \<le> val e * val r\<close> by linarith
  have "(1 + u) * (val e * val r) \<le> 3 / 2 * 2 ^ 964"
    using u_bounds p_max \<open>0 \<le> val e * val r\<close> by (intro mult_mono) auto
  moreover have "(3 / 2 * 2 ^ 964 :: real) \<le> 2 * 2 ^ 964" by (intro mult_right_mono) simp_all
  ultimately have p_big: "val (f_mul F e r) \<le> 2 * 2 ^ 964" by (meson p'(1) order.trans)
  have "(2 :: real) * 2 ^ 964 = 2 ^ 965" by (simp flip: power_Suc)
  also have "\<dots> \<le> 2 ^ 1000" by (intro power_increasing) simp_all
  finally have "val (f_mul F e r) \<le> 2 ^ 1000" using p_big by (rule order.trans [rotated])
  also have "(2 :: real) ^ 1000 \<le> 2 ^ 1001" by (intro power_increasing) simp_all
  finally have "val k + val (f_mul F e r) \<le> 2 * 2 ^ 1001" using assms(5) by linarith
  also have "(2 :: real) * 2 ^ 1001 = 2 ^ 1002" by (simp flip: power_Suc)
  also have "(2 :: real) ^ 1002 \<le> 2 ^ 1023" by (intro power_increasing) simp_all
  finally have "val k + val (f_mul F e r) \<le> 2 ^ 1023" .
  from add_near [OF assms(1) p(1) assms(4) p0 this]
  have s: "fin (f_add F k (f_mul F e r))"
    "near u (val k + val (f_mul F e r)) (val (f_add F k (f_mul F e r)))" by simp_all
  have s0: "0 \<le> val k + val (f_mul F e r)" using p0 assms(4) by simp
  note s' = nearD [OF s(2) s0 u_bounds(2)]
  have t: "fin t" "val t = min (val (f_add F k (f_mul F e r))) (val c)"
    using min_val [OF s(1) assms(2)] by (simp_all add: t_def e_def)
  show "fin t" by (rule t(1))
  show "0 \<le> val t" "val t \<le> val c" using t(2) s'(2) s0 assms(6) by auto
  define x where "x = val r * (real d / 1000)"
  have x: "0 \<le> x" using pos by (simp add: x_def)
  have "(1 + u) * (val e * val r) \<le> (1 + u) * ((1 + u) ^ 2 * (real d / 1000) * val r)"
    using e(2) pos u_bounds by (intro mult_left_mono mult_right_mono) auto
  also have "\<dots> = (1 + u) ^ 3 * x" by (simp add: x_def power3_eq_cube power2_eq_square mult_ac)
  finally have "val (f_mul F e r) \<le> (1 + u) ^ 3 * x" using p'(1) by (rule order.trans [rotated])
  moreover have "val k \<le> (1 + u) ^ 3 * val k"
    using mult_right_mono [OF one_le_power [of "1 + u" 3] assms(4)] u_bounds by simp
  ultimately have "val k + val (f_mul F e r) \<le> (1 + u) ^ 3 * (val k + x)"
    by (simp add: distrib_left)
  then have "(1 + u) * (val k + val (f_mul F e r)) \<le> (1 + u) * ((1 + u) ^ 3 * (val k + x))"
    using u_bounds by (intro mult_left_mono) auto
  also have "\<dots> = (1 + u) ^ 4 * (val k + x)" by (simp add: eval_nat_numeral)
  finally show "val t \<le> (1 + u) ^ 4 * (val k + val r * (real d / 1000))"
    using t(2) s'(1) unfolding x_def by linarith
qed

lemma acquire_near:
  assumes "fin (rl_tokens g)" and "fin (rl_capacity g)" and "fin (rl_refill_per_sec g)"
    and "0 \<le> val (rl_tokens g)" and "val (rl_tokens g) \<le> 2 ^ 1001" and "0 \<le> val (rl_capacity g)"
    and "rate_ok (val (rl_refill_per_sec g))" and "val (rl_capacity g) \<le> 2 ^ 1000"
    and "try_acquire F now g = (res, g')"
  shows "fin (rl_tokens g')" and "0 \<le> val (rl_tokens g')" and "val (rl_tokens g') \<le> 2 ^ 1001"
    and "rl_capacity g' = rl_capacity g" and "rl_refill_per_sec g' = rl_refill_per_sec g"
    and "rl_last_refill g' = now"
    and "(if res = Inr () then 1 else 0) + val (rl_tokens g') \<le> (1 + u) ^ 5 *
      (val (rl_tokens g) + val (rl_refill_per_sec g) * (real (unat now - unat (rl_last_refill g)) / 1000))"
proof -
  define d where "d = unat (saturating_sub now (rl_last_refill g))"
  have d: "d = unat now - unat (rl_last_refill g)" by (simp add: d_def saturating_sub_unat)
  have "unat now < 2 ^ LENGTH(64)" by (rule unsigned_less)
  then have "d < 2 ^ 64" by (simp add: d)
  note t = refill_near [OF assms(1-7) this]
  define t where "t = f_min F (f_add F (rl_tokens g) (f_mul F (f_div F (f_of F d) (f_of F 1000))
    (rl_refill_per_sec g))) (rl_capacity g)"
  note t = t [folded t_def]
  have one: "fin (f_of F 1)" "val (f_of F 1) = 1" using of_near [of 1] of_exact [of 1] by simp_all
  have two: "(2 :: real) ^ 1001 = 2 * 2 ^ 1000" by (simp flip: power_Suc)
  have ge: "f_ge F t (f_of F 1) \<longleftrightarrow> 1 \<le> val t" using ge_val [OF t(1) one(1)] by (simp only: one)
  let ?x = "val (rl_tokens g) + val (rl_refill_per_sec g) * (real d / 1000)"
  have step: "(1 + u) * val t \<le> (1 + u) ^ 5 * ?x"
  proof -
    have "(1 + u) * val t \<le> (1 + u) * ((1 + u) ^ 4 * ?x)"
      using t(4) u_bounds by (intro mult_left_mono) auto
    then show ?thesis by (simp add: eval_nat_numeral)
  qed
  have g': "(res, g') = (if 1 \<le> val t then (Inr (), g\<lparr>rl_tokens := f_sub F t (f_of F 1), rl_last_refill := now\<rparr>)
      else (Inl RateLimited, g\<lparr>rl_tokens := t, rl_last_refill := now\<rparr>))"
    using assms(9) ge
    by (cases g) (simp add: try_acquire_def try_acquire_n_def Let_def t_def d_def del: One_nat_def split: if_splits)
  show keep: "rl_capacity g' = rl_capacity g" "rl_refill_per_sec g' = rl_refill_per_sec g"
    "rl_last_refill g' = now"
    using g' by (auto split: if_splits)
  have all: "fin (rl_tokens g') \<and> 0 \<le> val (rl_tokens g') \<and> val (rl_tokens g') \<le> 2 ^ 1001 \<and>
    (if res = Inr () then 1 else 0) + val (rl_tokens g') \<le> (1 + u) ^ 5 * ?x"
  proof (cases "1 \<le> val t")
    case True
    from sub_near [OF t(1) one(1), unfolded one(2)] True
    have sub: "fin (f_sub F t (f_of F 1))" "near u (val t - 1) (val (f_sub F t (f_of F 1)))"
      by simp_all
    have "0 \<le> val t - 1" using True by simp
    note sub' = nearD [OF sub(2) this u_bounds(2)]
    have "(1 + u) * (val t - 1) + 1 \<le> (1 + u) * val t" using u_bounds by (simp add: algebra_simps)
    with sub'(1) step have "1 + val (f_sub F t (f_of F 1)) \<le> (1 + u) ^ 5 * ?x" by linarith
    moreover have "(1 + u) * (val t - 1) \<le> 2 * 2 ^ 1000"
      using u_bounds t(3) assms(8) True by (intro mult_mono) auto
    then have "val (f_sub F t (f_of F 1)) \<le> 2 ^ 1001" unfolding two by (rule order.trans [OF sub'(1)])
    ultimately show ?thesis using True g' sub(1) sub'(2) by auto
  next
    case False
    have "val t \<le> (1 + u) * val t" using t(2) u_bounds by (simp add: algebra_simps)
    with step have "val t \<le> (1 + u) ^ 5 * ?x" by linarith
    moreover have "(0 :: real) \<le> 2 ^ 1000" by simp
    then have "val t \<le> 2 ^ 1001" unfolding two using t(3) assms(8) by linarith
    ultimately show ?thesis using False g' t by auto
  qed
  then show "fin (rl_tokens g')" "0 \<le> val (rl_tokens g')" "val (rl_tokens g') \<le> 2 ^ 1001"
    "(if res = Inr () then 1 else 0) + val (rl_tokens g') \<le> (1 + u) ^ 5 *
      (val (rl_tokens g) + val (rl_refill_per_sec g) * (real (unat now - unat (rl_last_refill g)) / 1000))"
    by (simp_all add: d)
qed

text \<open>Over a whole run under a clock that never goes back.\<close>

lemma run_near:
  assumes "fin (rl_tokens g)" and "fin (rl_capacity g)" and "fin (rl_refill_per_sec g)"
    and "0 \<le> val (rl_tokens g)" and "val (rl_tokens g) \<le> 2 ^ 1001" and "0 \<le> val (rl_capacity g)"
    and "rate_ok (val (rl_refill_per_sec g))" and "val (rl_capacity g) \<le> 2 ^ 1000"
    and "sorted (rl_last_refill g # ts)"
  shows "real (grants (limiter_run F g ts)) \<le> (1 + u) ^ (5 * length ts) *
    (val (rl_tokens g) + val (rl_refill_per_sec g) *
      (real (unat (last (rl_last_refill g # ts)) - unat (rl_last_refill g)) / 1000))"
  using assms
proof (induction ts arbitrary: g)
  case Nil
  then show ?case by (simp add: grants_def)
next
  case (Cons now ts)
  obtain res g' where acq: "try_acquire F now g = (res, g')" by fastforce
  note step = acquire_near [OF Cons.prems(1-8) acq]
  let ?q = "(1 + u) ^ (5 * length ts)" and ?r = "val (rl_refill_per_sec g)"
  let ?d = "real (unat now - unat (rl_last_refill g)) / 1000"
  let ?e = "real (unat (last (now # ts)) - unat now) / 1000"
  let ?one = "if res = Inr () then 1 else 0 :: real"
  have "real (grants (limiter_run F g' ts)) \<le> ?q * (val (rl_tokens g') + ?r * ?e)"
    using Cons.IH [of g'] step Cons.prems by simp
  moreover have q: "1 \<le> ?q" using u_bounds by (intro one_le_power) simp
  have "?one \<le> ?q * ?one" using q by simp
  moreover have "real (grants (limiter_run F g (now # ts))) = ?one + real (grants (limiter_run F g' ts))"
    by (simp add: acq grants_def)
  ultimately have "real (grants (limiter_run F g (now # ts))) \<le> ?q * (?one + val (rl_tokens g') + ?r * ?e)"
    by (simp add: distrib_left)
  also have "\<dots> \<le> ?q * ((1 + u) ^ 5 * (val (rl_tokens g) + ?r * ?d) + ?r * ?e)"
    using step(7) q by (intro mult_left_mono) auto
  also have "\<dots> \<le> ?q * ((1 + u) ^ 5 * (val (rl_tokens g) + ?r * ?d + ?r * ?e))"
  proof -
    have r: "0 \<le> ?r * ?e" using rate_ok_nonneg [OF Cons.prems(7)] by simp
    have "1 \<le> (1 + u) ^ 5" using u_bounds by (intro one_le_power) simp
    from mult_right_mono [OF this r] have "?r * ?e \<le> (1 + u) ^ 5 * (?r * ?e)" by simp
    with q show ?thesis by (intro mult_left_mono) (auto simp: distrib_left)
  qed
  also have "\<dots> = (1 + u) ^ (5 * length (now # ts)) *
      (val (rl_tokens g) + ?r * (real (unat (last (rl_last_refill g # now # ts)) - unat (rl_last_refill g)) / 1000))"
  proof -
    have "unat (rl_last_refill g) \<le> unat now" "unat now \<le> unat (last (now # ts))"
      using Cons.prems(9) by (auto simp: word_le_nat_alt)
    then have "real (unat (last (now # ts)) - unat (rl_last_refill g)) / 1000 = ?d + ?e"
      by (simp add: diff_divide_distrib)
    then show ?thesis by (simp add: power_add distrib_left mult_ac)
  qed
  finally show ?case .
qed

end

section \<open>Instances\<close>

text \<open>Exact arithmetic, without any rounding.\<close>

interpretation exact: f64_round rat_ops real_of_rat "\<lambda>_. True" 0
  by unfold_locales
    (auto simp: rat_ops_exact near_def, auto simp: rat_ops_def of_rat_add of_rat_diff of_rat_mult of_rat_divide
      of_rat_less_eq min_def)

text \<open>
  Rounding to 53 significant bits, halves up: the precision of \<open>f64\<close>, with unbounded
  exponents.
\<close>

definition ulp :: "real \<Rightarrow> real" where
  "ulp x = 2 powr real_of_int (\<lfloor>log 2 x\<rfloor> - 52)"

definition round53 :: "real \<Rightarrow> real" where
  "round53 x = (if x \<le> 0 then 0 else ulp x * real_of_int (round (x / ulp x)))"

definition double_ops :: "real f64_ops" where
  "double_ops = \<lparr>f_of = (\<lambda>n. round53 (real n)), f_add = (\<lambda>a b. round53 (a + b)),
     f_sub = (\<lambda>a b. round53 (a - b)), f_mul = (\<lambda>a b. round53 (a * b)), f_div = (\<lambda>a b. round53 (a / b)),
     f_min = min, f_ge = (\<ge>)\<rparr>"

lemma ulp_bounds: "0 < x \<Longrightarrow> 0 < ulp x \<and> ulp x \<le> x / 2 ^ 52"
proof -
  assume "0 < x"
  have "2 powr real_of_int (\<lfloor>log 2 x\<rfloor> - 52) = 2 powr \<lfloor>log 2 x\<rfloor> / 2 ^ 52"
    by (simp add: powr_diff powr_realpow [symmetric])
  moreover have "2 powr \<lfloor>log 2 x\<rfloor> \<le> 2 powr log 2 x" by (intro powr_mono) simp_all
  ultimately show ?thesis using \<open>0 < x\<close> by (simp add: ulp_def divide_right_mono)
qed

lemma round53_near: "0 \<le> x \<Longrightarrow> near (1 / 2 ^ 53) x (round53 x)"
proof (cases "x = 0")
  case True
  then show ?thesis by (simp add: near_def round53_def)
next
  case False
  assume "0 \<le> x"
  with False have x: "0 < x" by simp
  let ?s = "ulp x"
  have s: "0 < ?s" "?s \<le> x / 2 ^ 52" using ulp_bounds [OF x] by simp_all
  have "round53 x - x = ?s * (real_of_int (round (x / ?s)) - x / ?s)"
    using x s by (simp add: round53_def right_diff_distrib)
  then have "\<bar>round53 x - x\<bar> = ?s * \<bar>real_of_int (round (x / ?s)) - x / ?s\<bar>"
    using s by (simp add: abs_mult)
  also have "\<dots> \<le> ?s * (1 / 2)"
    using s of_int_round_abs_le [of "x / ?s"] by (intro mult_left_mono) auto
  also have "\<dots> \<le> x / 2 ^ 53" using s by simp
  finally show ?thesis by (simp add: near_def)
qed

lemma round53_nat: "n \<le> 2 ^ 53 \<Longrightarrow> round53 (real n) = real n"
proof (cases "n = 0")
  case True
  then show ?thesis by (simp add: round53_def)
next
  case False
  assume n: "n \<le> 2 ^ 53"
  have s: "0 < ulp (real n)" using ulp_bounds [of "real n"] False by simp
  have "\<exists>k :: int. real n / ulp (real n) = real_of_int k"
  proof (cases "n = 2 ^ 53")
    case True
    have "real n = 2 powr 53" by (simp add: True)
    then have "log 2 (real n) = 53" by (simp only: log_powr_cancel)
    then have "ulp (real n) = 2" by (simp add: ulp_def)
    then show ?thesis using True by (intro exI [of _ "2 ^ 52"]) simp
  next
    case less: False
    then have "real n < 2 ^ 53" using n by (metis le_neq_implies_less of_nat_less_iff of_nat_numeral of_nat_power)
    then have "log 2 (real n) < 53" using False by (simp add: log_less_iff powr_realpow [symmetric])
    then have e: "\<lfloor>log 2 (real n)\<rfloor> \<le> 52" by linarith
    define k where "k = nat (52 - \<lfloor>log 2 (real n)\<rfloor>)"
    have "real_of_int (\<lfloor>log 2 (real n)\<rfloor> - 52) = - real k" using e by (simp add: k_def)
    then have "ulp (real n) = 1 / 2 ^ k"
      unfolding ulp_def by (simp add: powr_minus_divide powr_realpow)
    then have "real n / ulp (real n) = real_of_int (int n * 2 ^ k)" by simp
    then show ?thesis by blast
  qed
  then obtain k :: int where k: "real n / ulp (real n) = real_of_int k" by blast
  then have "round53 (real n) = ulp (real n) * (real n / ulp (real n))"
    using False by (simp add: round53_def)
  with s show ?thesis by simp
qed

lemma double_ops_exact: "f64_exact double_ops"
proof -
  have small: "a \<le> 2 ^ 53" "b \<le> 2 ^ 53" if "a + b \<le> 2 ^ 53" for a b :: nat using that by simp_all
  have prod: "b = 0 \<or> a \<le> 2 ^ 53" if "a * b \<le> 2 ^ 53" for a b :: nat
    using that by (cases b) (auto simp: )
  have mul: "round53 (round53 (real a) * round53 (real b)) = round53 (real (a * b))" if "a * b \<le> 2 ^ 53" for a b
    using prod [OF that] prod [of b a] that by (auto simp: mult.commute round53_nat round53_def [of 0])
  have div: "round53 (round53 (real (a * b)) / round53 (real b)) = round53 (real a)"
    if "a * b \<le> 2 ^ 53" "0 < b" for a b
  proof (cases "a = 0")
    case False
    then have "b \<le> 2 ^ 53" using that prod [of b a] by (simp add: mult.commute)
    with that show ?thesis by (simp add: round53_nat del: of_nat_mult) simp
  qed (simp add: round53_def)
  show ?thesis
    using mul div small round53_nat [of "_ + _"]
    by (auto simp: f64_exact_def double_ops_def round53_nat min_def)
qed

interpretation double: f64_round double_ops id "\<lambda>_. True" "1 / 2 ^ 53"
  by unfold_locales
    (auto simp: double_ops_exact, auto simp: double_ops_def round53_nat
      intro!: round53_near [simplified] intro: in_range_nonneg)

section \<open>Properties\<close>

text \<open>
  C36 The rate limiter under a clock that never goes back, read at any milliseconds: over any
  sequence of calls it admits at most the capacity plus the rate times the time elapsed, up to
  the rounding of its five operations per call, for every finite capacity and rate within
  the range. And with whole numbers it admits at one instant exactly as many calls as its
  capacity.
\<close>

theorem limiter_rate_bound:
  assumes "f64_round F val fin u" and "fin capacity" and "fin rate"
    and "0 \<le> val capacity" and "val capacity \<le> 2 ^ 1000" and "rate_ok (val rate)" and "sorted (t0 # ts)"
  shows "real (grants (limiter_run F (limiter_new t0 capacity rate) ts)) \<le>
      (1 + u) ^ (5 * length ts) *
        (val capacity + val rate * (real (unat (last (t0 # ts)) - unat t0) / 1000)) \<and>
    (c \<le> 2 ^ 53 \<longrightarrow>
      grants (limiter_run F (limiter_new t0 (f_of F c) (f_of F r)) (replicate n t0)) = min n c)"
proof (intro conjI impI)
  have "(2 :: real) ^ 1000 \<le> 2 ^ 1001" by (intro power_increasing) simp_all
  with assms(5) have "val capacity \<le> 2 ^ 1001" by (rule order.trans)
  then show "real (grants (limiter_run F (limiter_new t0 capacity rate) ts)) \<le>
      (1 + u) ^ (5 * length ts) *
        (val capacity + val rate * (real (unat (last (t0 # ts)) - unat t0) / 1000))"
    using f64_round.run_near [OF assms(1), of "limiter_new t0 capacity rate" ts] assms(2-)
    by (simp add: limiter_new_def)
next
  assume c: "c \<le> 2 ^ 53"
  have "unat t0 < 2 ^ LENGTH(64)" by (rule unsigned_less)
  with c have "grants (limiter_run F (limiter_new (of_nat (unat t0)) (f_of F c) (f_of F r))
      (map (at_second (unat t0)) (replicate n 0))) = min n c"
    by (subst limiter_new_bucket [OF f64_round.exact [OF assms(1)]]) (simp_all add: bucket_burst)
  then show "grants (limiter_run F (limiter_new t0 (f_of F c) (f_of F r)) (replicate n t0)) = min n c"
    by (simp add: at_second_def)
qed

text \<open>Two tokens at ten per second, as in the unit test, and three more calls after 200 ms.\<close>

theorem limiter_rate_bound_witness:
  "real (grants (limiter_run rat_ops (limiter_new 0 2 10) [0, 0, 0, 200, 200, 200])) \<le> 4 \<and>
   real (grants (limiter_run double_ops (limiter_new 0 2 10) [0, 0, 0, 200, 200, 200])) \<le> (1 + 1 / 2 ^ 53) ^ 30 * 4"
proof
  have "rate_ok 10"
    by (auto simp: rate_ok_def power_divide intro: order.trans [OF power_le_one] order.trans [OF _ power_increasing [of 4]])
  then show "real (grants (limiter_run rat_ops (limiter_new 0 2 10) [0, 0, 0, 200, 200, 200])) \<le> 4"
    "real (grants (limiter_run double_ops (limiter_new 0 2 10) [0, 0, 0, 200, 200, 200])) \<le> (1 + 1 / 2 ^ 53) ^ 30 * 4"
    using limiter_rate_bound [OF exact.f64_round_axioms, of 2 10 0 "[0, 0, 0, 200, 200, 200]" 0 0 0]
      limiter_rate_bound [OF double.f64_round_axioms, of 2 10 0 "[0, 0, 0, 200, 200, 200]" 0 0 0]
    by (simp_all del: limiter_run.simps)
qed

text \<open>
  C37 When the clock runs backwards the limit is lost: with readings that alternate between
  a second and its start, each pair of calls is granted one more token, so that one second
  admits any number of calls. The node's clock is the system time, which can be set back.
\<close>

theorem limiter_clock_regression:
  assumes "f64_exact F" and "0 < c" and "0 < r" and "c + r \<le> 2 ^ 53" and "t0 + 1000 < 2 ^ 64"
  shows "n \<le> grants (limiter_run F (limiter_new (of_nat t0) (f_of F c) (f_of F r))
    (map (at_second t0) (concat (replicate n [1, 0]))))"
proof -
  have "grants (limiter_run F (limiter_new (of_nat t0) (f_of F c) (f_of F r))
      (map (at_second t0) (concat (replicate n [1, 0])))) =
    length (filter (\<lambda>b. b) (bucket_run c r c 0 (concat (replicate n [1, 0]))))"
    using assms(4,5) by (intro limiter_new_bucket [OF assms(1)]) auto
  then show ?thesis using bucket_regression [OF assms(2,3), of n c] by simp
qed

theorem limiter_clock_regression_witness:
  "7 \<le> grants (limiter_run rat_ops (limiter_new 5 1 1) (map (at_second 5) (concat (replicate 7 [1, 0]))))"
  using limiter_clock_regression [OF rat_ops_exact, of 1 1 5 7] by (simp add: rat_ops_def del: replicate.simps)

end
