(* ===== verification/Clocks.thy ===== *)
theory Clocks
  imports Limiter
begin

text \<open>
  The clocks and the deadline of \<open>resilience/src/lib.rs\<close>. The trait \<open>Clock\<close> is the locale
  \<open>clock\<close>; its two implementations, the system time and the manual clock, are its
  interpretations. The timer behind \<open>with_timeout\<close> is a library: the locale \<open>timer\<close> is its
  documented contract.
\<close>

section \<open>Clocks\<close>

text \<open>
  \<open>SystemClock\<close>: the system time is a number of nanoseconds since the Unix epoch, negative
  before it; there \<open>duration_since\<close> fails and the reading is 0.
\<close>

definition system_now :: "int \<Rightarrow> u64" where
  "system_now t = (if 0 \<le> t then as_millis_u64 (nat t) else 0)"

text \<open>\<open>ManualClock\<close>: one atomic counter; \<open>fetch_add\<close> wraps around.\<close>

record manual_clock =
  mk_millis :: u64

definition manual_new :: "u64 \<Rightarrow> manual_clock" where
  "manual_new start = \<lparr>mk_millis = start\<rparr>"

definition manual_advance :: "duration \<Rightarrow> manual_clock \<Rightarrow> manual_clock" where
  "manual_advance d c = c\<lparr>mk_millis := mk_millis c + as_millis_u64 d\<rparr>"

definition manual_now :: "manual_clock \<Rightarrow> u64" where
  "manual_now c = mk_millis c"

text \<open>
  What the primitives rely on: while the readings fit, time that passes shows in them up to
  the millisecond they are truncated to.
\<close>

locale clock =
  fixes now :: "'c \<Rightarrow> u64" and pass :: "duration \<Rightarrow> 'c \<Rightarrow> 'c" and fits :: "duration \<Rightarrow> 'c \<Rightarrow> bool"
  assumes at_least: "fits d c \<Longrightarrow> unat (now c) + d div 10 ^ 6 \<le> unat (now (pass d c))"
    and at_most: "fits d c \<Longrightarrow> unat (now (pass d c)) \<le> unat (now c) + d div 10 ^ 6 + 1"

lemma unat_as_millis: "d div 10 ^ 6 < 2 ^ 64 \<Longrightarrow> unat (as_millis_u64 d) = d div 10 ^ 6"
  by (simp add: as_millis_u64_def unat_of_nat)

lemma manual_fits:
  "unat (mk_millis c) + d div 10 ^ 6 < 2 ^ 64 \<Longrightarrow>
     unat (manual_now (manual_advance d c)) = unat (manual_now c) + d div 10 ^ 6"
  using unat_add_lem [of "mk_millis c" "as_millis_u64 d"]
  by (simp add: manual_now_def manual_advance_def unat_as_millis)

interpretation manual: clock manual_now manual_advance "\<lambda>d c. unat (mk_millis c) + d div 10 ^ 6 < 2 ^ 64"
  by unfold_locales (simp_all add: manual_fits)

lemma system_fits:
  "0 \<le> t \<Longrightarrow> (nat t + d) div 10 ^ 6 < 2 ^ 64 \<Longrightarrow>
     unat (system_now t) = nat t div 10 ^ 6 \<and> unat (system_now (t + int d)) = (nat t + d) div 10 ^ 6"
  using div_le_mono [of "nat t" "nat t + d" "10 ^ 6"]
  by (simp add: system_now_def nat_add_distrib unat_as_millis)

interpretation system: clock system_now "\<lambda>d t. t + int d" "\<lambda>d t. 0 \<le> t \<and> (nat t + d) div 10 ^ 6 < 2 ^ 64"
proof unfold_locales
  fix d t assume *: "0 \<le> (t :: int) \<and> (nat t + d) div 10 ^ 6 < 2 ^ 64"
  have split: "(nat t + d) div 10 ^ 6 = nat t div 10 ^ 6 + d div 10 ^ 6 + (nat t mod 10 ^ 6 + d mod 10 ^ 6) div 10 ^ 6"
    by (rule div_add1_eq)
  have "nat t mod 10 ^ 6 + d mod 10 ^ 6 < 2 * 10 ^ 6"
    using mod_less_divisor [of "10 ^ 6" "nat t"] mod_less_divisor [of "10 ^ 6" d] by simp
  then have "(nat t mod 10 ^ 6 + d mod 10 ^ 6) div 10 ^ 6 < 2"
    by (intro less_mult_imp_div_less) simp
  with split have "nat t div 10 ^ 6 + d div 10 ^ 6 \<le> (nat t + d) div 10 ^ 6"
    "(nat t + d) div 10 ^ 6 \<le> nat t div 10 ^ 6 + d div 10 ^ 6 + 1"
    by linarith+
  with system_fits [of t d] *
  show "unat (system_now t) + d div 10 ^ 6 \<le> unat (system_now (t + int d))"
    "unat (system_now (t + int d)) \<le> unat (system_now t) + d div 10 ^ 6 + 1"
    by simp_all
qed

section \<open>A breaker on a clock\<close>

lemma failures_replicate: "failures_since (replicate n (Failure t)) k = k + n"
  by (induction n arbitrary: k) simp_all

lemma last_replicate: "0 < n \<Longrightarrow> last_failure (replicate n (Failure t)) t' = t"
proof (induction n arbitrary: t')
  case (Suc n)
  then show ?case by (cases n) simp_all
qed simp

text \<open>Fewer than \<open>2 ^ 32\<close> failures never overflow the counter.\<close>

lemma failures_run:
  "unat (cb_failures b) + n < 2 ^ 32 \<Longrightarrow>
     \<exists>b'. breaker_run Checked b (replicate n (Failure t)) = Some b'"
proof (induction n arbitrary: b)
  case (Suc n)
  then have "checked_add (cb_failures b) 1 = Some (cb_failures b + 1)"
    by (simp add: checked_add_def)
  moreover from checked_add_unat [OF this] have "unat (cb_failures b + 1) = unat (cb_failures b) + 1" by simp
  ultimately show ?case using Suc by (simp add: breaker_on_failure_def Let_def)
qed simp

text \<open>A breaker that just recorded a failure is not half-open.\<close>

lemma failure_state: "breaker_on_failure m t b = Some b' \<Longrightarrow> cb_state b \<noteq> HalfOpen \<Longrightarrow> cb_state b' \<noteq> HalfOpen"
  by (auto simp: breaker_on_failure_def Let_def split: option.splits if_splits arith_mode.splits)

lemma failures_state:
  "breaker_run m b (replicate n (Failure t)) = Some b' \<Longrightarrow> cb_state b \<noteq> HalfOpen \<Longrightarrow> cb_state b' \<noteq> HalfOpen"
proof (induction n arbitrary: b)
  case (Suc n)
  then obtain b1 where "breaker_on_failure m t b = Some b1" "breaker_run m b1 (replicate n (Failure t)) = Some b'"
    by (auto simp: bind_eq_Some_conv)
  with Suc.IH [OF this(2)] failure_state [OF this(1)] Suc.prems(2) show ?case by blast
qed simp

lemma trips:
  assumes "0 < threshold"
  shows "\<exists>b. breaker_run Checked (breaker_new threshold cooldown) (replicate (unat threshold) (Failure t)) = Some b \<and>
    cb_state b = Open \<and> cb_opened_at b = t \<and> cb_cooldown_millis b = as_millis_u64 cooldown"
proof -
  have pos: "0 < unat threshold" using assms by (simp add: word_less_nat_alt)
  obtain b where run: "breaker_run Checked (breaker_new threshold cooldown)
      (replicate (unat threshold) (Failure t)) = Some b"
    using failures_run [of "breaker_new threshold cooldown" "unat threshold" t] unsigned_less [of threshold]
    by (auto simp: breaker_new_def)
  have "cb_state b \<noteq> Closed \<and> cb_opened_at b = t \<and> cb_cooldown_millis b = as_millis_u64 cooldown"
    using run_agrees [OF run new_agrees [OF assms]] pos
    by (simp add: breaker_agrees_def failures_replicate last_replicate) (simp add: breaker_new_def)
  moreover have "cb_state b \<noteq> HalfOpen"
    using failures_state [OF run] by (simp add: breaker_new_def)
  ultimately show ?thesis using run by (cases "cb_state b") auto
qed

context clock begin

lemma open_breaker:
  assumes "cb_state b = Open" and "cb_opened_at b = now c" and "fits d c"
    and "unat (cb_cooldown_millis b) = k"
  shows "k \<le> d div 10 ^ 6 \<Longrightarrow> breaker_acquire (now (pass d c)) b = (Inr (), b\<lparr>cb_state := HalfOpen\<rparr>)"
    and "d div 10 ^ 6 + 1 < k \<Longrightarrow> breaker_acquire (now (pass d c)) b = (Inl BreakerOpen, b)"
  using at_least [OF assms(3)] at_most [OF assms(3)] assms
  by (auto simp: breaker_acquire_def breaker_get_state_def Let_def word_le_nat_alt saturating_sub_unat)

end

section \<open>Deadlines\<close>

text \<open>
  \<open>with_timeout\<close> over the timer of the runtime, which answers \<open>None\<close> when the deadline came
  first. A future is described by when it completes and with what, if ever.
\<close>

datatype timeout_error = TimeoutError duration

definition with_timeout ::
    "(duration \<Rightarrow> 'fut \<Rightarrow> 'a option) \<Rightarrow> duration \<Rightarrow> 'fut \<Rightarrow> timeout_error + 'a" where
  "with_timeout timeout dur fut =
     (case timeout dur fut of None \<Rightarrow> Inl (TimeoutError dur) | Some v \<Rightarrow> Inr v)"

text \<open>
  The contract: a value that is ready at once or before the deadline is returned, a future
  that is not ready a millisecond (the resolution of the timer) after it is cancelled.
\<close>

locale timer =
  fixes timeout :: "duration \<Rightarrow> 'fut \<Rightarrow> 'a option" and completes :: "'fut \<Rightarrow> (duration \<times> 'a) option"
  assumes in_time: "completes fut = Some (t, v) \<Longrightarrow> t = 0 \<or> t < dur \<Longrightarrow> timeout dur fut = Some v"
    and too_late: "completes fut = Some (t, v) \<Longrightarrow> 0 < t \<Longrightarrow> dur + 10 ^ 6 < t \<Longrightarrow> timeout dur fut = None"
    and never: "completes fut = None \<Longrightarrow> timeout dur fut = None"
    and honest: "timeout dur fut = Some v \<Longrightarrow> \<exists>t. completes fut = Some (t, v)"
begin

lemma with_timeout_value: "with_timeout timeout dur fut = Inr v \<Longrightarrow> \<exists>t. completes fut = Some (t, v) \<and> t \<le> dur + 10 ^ 6"
proof -
  assume "with_timeout timeout dur fut = Inr v"
  then have v: "timeout dur fut = Some v" by (simp add: with_timeout_def split: option.splits)
  from honest [OF this] obtain t where t: "completes fut = Some (t, v)" by blast
  with v too_late [OF t, of dur] have "t \<le> dur + 10 ^ 6" by (cases "t = 0") (simp_all add: not_less [symmetric], blast)
  with t show ?thesis by blast
qed

lemma with_timeout_in_time: "completes fut = Some (t, v) \<Longrightarrow> t < dur \<Longrightarrow> with_timeout timeout dur fut = Inr v"
  by (simp add: with_timeout_def in_time)

lemma with_timeout_never: "completes fut = None \<Longrightarrow> with_timeout timeout dur fut = Inl (TimeoutError dur)"
  by (simp add: with_timeout_def never)

end

text \<open>A timer on a simulated clock, as an instance of the contract.\<close>

definition sim_timeout :: "duration \<Rightarrow> (duration \<times> 'a) option \<Rightarrow> 'a option" where
  "sim_timeout dur fut =
     (case fut of None \<Rightarrow> None | Some (t, v) \<Rightarrow> if t = 0 \<or> t < dur then Some v else None)"

interpretation sim: timer sim_timeout id
  by unfold_locales (auto simp: sim_timeout_def split: option.splits if_splits)

section \<open>Properties\<close>

text \<open>
  C35 The breaker recovers with the clock: after \<open>threshold\<close> failures at one reading a new
  breaker refuses calls as long as less than its cooldown passes and admits them from then
  on, and a success closes it again. On the manual clock this is exact to the millisecond;
  on the system clock a refusal is certain up to a millisecond before the cooldown.
\<close>

theorem breaker_recovers:
  assumes "0 < threshold" and "cooldown div 10 ^ 6 < 2 ^ 64"
    and "unat (mk_millis c) + d div 10 ^ 6 < 2 ^ 64" and "0 \<le> t" and "(nat t + d) div 10 ^ 6 < 2 ^ 64"
  shows "(\<exists>b. breaker_run Checked (breaker_new threshold cooldown)
        (replicate (unat threshold) (Failure (manual_now c))) = Some b \<and>
      fst (breaker_acquire (manual_now (manual_advance d c)) b) =
        (if d div 10 ^ 6 < cooldown div 10 ^ 6 then Inl BreakerOpen else Inr ()) \<and>
      cb_state (breaker_on_success (snd (breaker_acquire (manual_now (manual_advance d c)) b))) = Closed) \<and>
    (\<exists>b. breaker_run Checked (breaker_new threshold cooldown)
        (replicate (unat threshold) (Failure (system_now t))) = Some b \<and>
      (cooldown \<le> d \<longrightarrow> fst (breaker_acquire (system_now (t + int d)) b) = Inr ()) \<and>
      (d + 2 * 10 ^ 6 \<le> cooldown \<longrightarrow> fst (breaker_acquire (system_now (t + int d)) b) = Inl BreakerOpen))"
proof (rule conjI)
  obtain b where b: "breaker_run Checked (breaker_new threshold cooldown)
      (replicate (unat threshold) (Failure (manual_now c))) = Some b" "cb_state b = Open"
    "cb_opened_at b = manual_now c" "unat (cb_cooldown_millis b) = cooldown div 10 ^ 6"
    using trips [OF assms(1), of cooldown "manual_now c"] unat_as_millis [OF assms(2)] by auto
  have "fst (breaker_acquire (manual_now (manual_advance d c)) b) =
      (if d div 10 ^ 6 < cooldown div 10 ^ 6 then Inl BreakerOpen else Inr ())"
    using b manual_fits [OF assms(3)]
    by (simp add: breaker_acquire_def breaker_get_state_def Let_def word_le_nat_alt saturating_sub_unat)
  with b(1) show "\<exists>b. breaker_run Checked (breaker_new threshold cooldown)
        (replicate (unat threshold) (Failure (manual_now c))) = Some b \<and>
      fst (breaker_acquire (manual_now (manual_advance d c)) b) =
        (if d div 10 ^ 6 < cooldown div 10 ^ 6 then Inl BreakerOpen else Inr ()) \<and>
      cb_state (breaker_on_success (snd (breaker_acquire (manual_now (manual_advance d c)) b))) = Closed"
    by (auto simp: breaker_on_success_def)
next
  obtain b where b: "breaker_run Checked (breaker_new threshold cooldown)
      (replicate (unat threshold) (Failure (system_now t))) = Some b" "cb_state b = Open"
    "cb_opened_at b = system_now t" "unat (cb_cooldown_millis b) = cooldown div 10 ^ 6"
    using trips [OF assms(1), of cooldown "system_now t"] unat_as_millis [OF assms(2)] by auto
  note acquire = system.open_breaker [OF b(2,3) _ b(4), of d]
  have "cooldown \<le> d \<Longrightarrow> cooldown div 10 ^ 6 \<le> d div 10 ^ 6" by (rule div_le_mono)
  moreover have "d + 2 * 10 ^ 6 \<le> cooldown \<Longrightarrow> d div 10 ^ 6 + 1 < cooldown div 10 ^ 6"
    using div_le_mono [of "d + 2 * 10 ^ 6" cooldown "10 ^ 6"] by simp
  ultimately show "\<exists>b. breaker_run Checked (breaker_new threshold cooldown)
        (replicate (unat threshold) (Failure (system_now t))) = Some b \<and>
      (cooldown \<le> d \<longrightarrow> fst (breaker_acquire (system_now (t + int d)) b) = Inr ()) \<and>
      (d + 2 * 10 ^ 6 \<le> cooldown \<longrightarrow> fst (breaker_acquire (system_now (t + int d)) b) = Inl BreakerOpen)"
    using b(1) acquire assms(4,5) by auto
qed

theorem breaker_recovers_witness:
  "\<exists>b. breaker_run Checked (breaker_new 2 (from_millis 100)) [Failure 0, Failure 0] = Some b \<and>
     fst (breaker_acquire 150 b) = Inr ()"
proof -
  have "replicate (unat (2 :: u32)) (Failure (manual_now (manual_new 0))) = [Failure 0, Failure 0]"
    by (simp add: manual_now_def manual_new_def) (simp add: numeral_2_eq_2)
  moreover have "manual_now (manual_advance (from_millis 150) (manual_new 0)) = 150"
    by (simp add: manual_now_def manual_new_def manual_advance_def from_millis_def as_millis_u64_def)
  ultimately show ?thesis
    using breaker_recovers [of 2 "from_millis 100" "manual_new 0" "from_millis 150" 0]
    by (simp add: manual_new_def from_millis_def del: breaker_run.simps) blast
qed

end
