(* ===== verification/Http_App.thy ===== *)
theory Http_App
  imports Api Clocks
begin

text \<open>
  The HTTP surface, \<open>node/src/startup.rs\<close>: the route table, the handlers, the deadline of a
  request and the shutdown signal. What the libraries contribute is a parameter: the extractor
  and the parser of GraphQL requests, the router, the playground page, the text of the metrics,
  the WebSocket service and the timer. A parsed document is the list of the root fields of its
  operation, with any number of entries. Without a response the handler has panicked, and the
  server closes the connection.
\<close>

section \<open>GraphQL fields\<close>

datatype gql_field =
    QIdentities
  | QIdentity string
  | QIssuers
  | QStats
  | QProof string u32
  | MIngestIssuer string string string
  | MBuildTree string "string list"
  | MVerifyProof string string "string list" u64

datatype gql_value =
    VIdentities "identity_dto list"
  | VIdentity identity_dto
  | VIssuers "issuer_dto list"
  | VStats stats_dto
  | VProof proof_dto
  | VIssuer issuer_dto
  | VRoot string
  | VValid bool

definition as_value :: "('a \<Rightarrow> gql_value) \<Rightarrow> string + 'a \<Rightarrow> string + gql_value" where
  "as_value f r = res_bind r (\<lambda>x. Inr (f x))"

fun exec_field ::
    "'h keccak \<Rightarrow> arith_mode \<Rightarrow> ('i, 'j, 't) ports \<Rightarrow> gql_field \<Rightarrow> ('i, 'j, 't) engine \<Rightarrow>
     ((string + gql_value) \<times> ('i, 'j, 't) engine) panicking"
where
  "exec_field K m P QIdentities E = Some (as_value VIdentities (query_identities P E), E)"
| "exec_field K m P (QIdentity address) E = Some (as_value VIdentity (query_identity P E address), E)"
| "exec_field K m P QIssuers E = Some (as_value VIssuers (query_issuers P E), E)"
| "exec_field K m P QStats E = map_option (\<lambda>r. (as_value VStats r, E)) (query_stats m P E)"
| "exec_field K m P (QProof issuer index) E =
     map_option (\<lambda>r. (as_value VProof r, E)) (query_proof K m P E issuer index)"
| "exec_field K m P (MIngestIssuer address authority schema_id) E =
     Some (apfst (as_value VIssuer) (mutate_ingest_issuer P E address authority schema_id))"
| "exec_field K m P (MBuildTree issuer leaves) E =
     map_option (apfst (as_value VRoot)) (mutate_build_tree K P E issuer leaves)"
| "exec_field K m P (MVerifyProof issuer leaf siblings index_bits) E =
     map_option (apfst (as_value VValid)) (mutate_verify_proof K m P E issuer leaf siblings index_bits)"

text \<open>
  The root fields of an operation in their order. Those of a mutation run one after the other,
  as the GraphQL specification demands; those of a query change nothing. After an error the
  framework may cancel the remaining fields, which the specification leaves open: \<open>cancel\<close>
  tells. No root field is nullable, so a single error leaves no data.
\<close>

fun exec_fields ::
    "bool \<Rightarrow> 'h keccak \<Rightarrow> arith_mode \<Rightarrow> ('i, 'j, 't) ports \<Rightarrow> gql_field list \<Rightarrow> ('i, 'j, 't) engine \<Rightarrow>
     ((string + gql_value) list \<times> ('i, 'j, 't) engine) panicking"
where
  "exec_fields cancel K m P [] E = Some ([], E)"
| "exec_fields cancel K m P (f # fs) E =
     (case exec_field K m P f E of
        None \<Rightarrow> None
      | Some (r, E') \<Rightarrow>
          if cancel \<and> isl r then Some ([r], E')
          else map_option (apfst (Cons r)) (exec_fields cancel K m P fs E'))"

definition gql_response :: "(string + gql_value) list \<Rightarrow> string list + gql_value list" where
  "gql_response rs =
     (if list_ex isl rs then Inl (map projl (filter isl rs)) else Inr (map projr rs))"

section \<open>Requests, responses and routes\<close>

datatype http_method = GET | HEAD | POST | Other string

record http_request =
  rq_method :: http_method
  rq_path :: string
  rq_body :: string

datatype http_body =
    NoBody
  | Html string
  | Json "(string \<times> string) list"
  | Graphql "string list + gql_value list"
  | Plain string

record http_response =
  rs_status :: nat
  rs_body :: http_body

definition ok_response :: "http_body \<Rightarrow> http_response" where
  "ok_response b = \<lparr>rs_status = 200, rs_body = b\<rparr>"

datatype endpoint = Playground | GraphqlHandler | GraphqlWs | HealthLive | HealthReady | Metrics

datatype method_router = ByMethod "(http_method \<times> endpoint) list" | AnyMethod endpoint

record 'm http_lib =
  hl_route :: "(string \<times> method_router) list \<Rightarrow> http_method \<Rightarrow> string \<Rightarrow> nat + endpoint"
  hl_extract :: "string \<Rightarrow> nat + string"
  hl_parse :: "string \<Rightarrow> string + gql_field list"
  hl_cancels :: bool
  hl_playground :: "string \<Rightarrow> string \<Rightarrow> string"
  hl_render :: "'m \<Rightarrow> string"
  hl_websocket :: "http_request \<Rightarrow> http_response"

record app =
  app_routes :: "(string \<times> method_router) list"
  app_timeout_status :: nat
  app_timeout :: duration

definition build_app :: "duration \<Rightarrow> app" where
  "build_app request_timeout =
     \<lparr>app_routes =
        [(''/graphql'', ByMethod [(GET, Playground), (POST, GraphqlHandler)]),
         (''/graphql/ws'', AnyMethod GraphqlWs),
         (''/health/live'', ByMethod [(GET, HealthLive)]),
         (''/health/ready'', ByMethod [(GET, HealthReady)]),
         (''/metrics'', ByMethod [(GET, Metrics)])],
      app_timeout_status = 408, app_timeout = request_timeout\<rparr>"

text \<open>
  What the router of the framework promises: an unknown path is 404, a method that a path does
  not take 405, and \<open>HEAD\<close> goes to the handler of \<open>GET\<close> where it has none of its own.
\<close>

locale router =
  fixes route :: "(string \<times> method_router) list \<Rightarrow> http_method \<Rightarrow> string \<Rightarrow> nat + endpoint"
  assumes unknown_path: "map_of routes path = None \<Longrightarrow> route routes verb path = Inl 404"
    and any_method: "map_of routes path = Some (AnyMethod e) \<Longrightarrow> route routes verb path = Inr e"
    and by_method: "map_of routes path = Some (ByMethod ms) \<Longrightarrow> map_of ms verb = Some e \<Longrightarrow>
      route routes verb path = Inr e"
    and head_as_get: "map_of routes path = Some (ByMethod ms) \<Longrightarrow> map_of ms HEAD = None \<Longrightarrow>
      map_of ms GET = Some e \<Longrightarrow> route routes HEAD path = Inr e"
    and not_taken: "map_of routes path = Some (ByMethod ms) \<Longrightarrow> map_of ms verb = None \<Longrightarrow>
      (verb = HEAD \<Longrightarrow> map_of ms GET = None) \<Longrightarrow> route routes verb path = Inl 405"

text \<open>A router over the table as it is, as an instance of the contract.\<close>

definition table_route ::
    "(string \<times> method_router) list \<Rightarrow> http_method \<Rightarrow> string \<Rightarrow> nat + endpoint" where
  "table_route routes verb path =
     (case map_of routes path of
        None \<Rightarrow> Inl 404
      | Some (AnyMethod e) \<Rightarrow> Inr e
      | Some (ByMethod ms) \<Rightarrow>
          ok_or (map_of ms (if verb = HEAD \<and> map_of ms HEAD = None then GET else verb)) 405)"

interpretation table: router table_route
  by unfold_locales (auto simp: table_route_def)

section \<open>Handlers\<close>

text \<open>
  The extractor rejects a body that is no GraphQL request with a status of its own; a document
  that cannot be parsed, or is too deep or complex, is a response with an error.
\<close>

definition graphql_handler ::
    "'m http_lib \<Rightarrow> 'h keccak \<Rightarrow> arith_mode \<Rightarrow> ('i, 'j, 't) ports \<Rightarrow> string \<Rightarrow> ('i, 'j, 't) engine \<Rightarrow>
     (http_response \<times> ('i, 'j, 't) engine) panicking" where
  "graphql_handler L K m P body E =
     (case hl_extract L body of
        Inl status \<Rightarrow> Some (\<lparr>rs_status = status, rs_body = NoBody\<rparr>, E)
      | Inr document \<Rightarrow>
     (case hl_parse L document of
        Inl e \<Rightarrow> Some (ok_response (Graphql (Inl [e])), E)
      | Inr fs \<Rightarrow> map_option (\<lambda>(rs, E'). (ok_response (Graphql (gql_response rs)), E'))
          (exec_fields (hl_cancels L) K m P fs E)))"

definition playground :: "'m http_lib \<Rightarrow> http_response" where
  "playground L = ok_response (Html (hl_playground L ''/graphql'' ''/graphql/ws''))"

definition health_live :: http_response where
  "health_live = ok_response (Json [(''status'', ''alive'')])"

definition health_ready :: http_response where
  "health_ready = ok_response (Json [(''status'', ''ready'')])"

definition metrics_route :: "'m http_lib \<Rightarrow> 'm \<Rightarrow> http_response" where
  "metrics_route L M = ok_response (Plain (hl_render L M))"

definition handle ::
    "'m http_lib \<Rightarrow> 'h keccak \<Rightarrow> arith_mode \<Rightarrow> ('i, 'j, 't) ports \<Rightarrow> app \<Rightarrow> 'm \<Rightarrow> http_request \<Rightarrow>
     ('i, 'j, 't) engine \<Rightarrow> (http_response \<times> ('i, 'j, 't) engine) panicking" where
  "handle L K m P a M rq E =
     (case hl_route L (app_routes a) (rq_method rq) (rq_path rq) of
        Inl status \<Rightarrow> Some (\<lparr>rs_status = status, rs_body = NoBody\<rparr>, E)
      | Inr GraphqlHandler \<Rightarrow> graphql_handler L K m P (rq_body rq) E
      | Inr Playground \<Rightarrow> Some (playground L, E)
      | Inr GraphqlWs \<Rightarrow> Some (hl_websocket L rq, E)
      | Inr HealthLive \<Rightarrow> Some (health_live, E)
      | Inr HealthReady \<Rightarrow> Some (health_ready, E)
      | Inr Metrics \<Rightarrow> Some (metrics_route L M, E))"

text \<open>\<open>TimeoutLayer\<close>: the response of the handler's future, or the status at the deadline.\<close>

definition timeout_layer ::
    "(duration \<Rightarrow> 'fut \<Rightarrow> http_response option) \<Rightarrow> app \<Rightarrow> 'fut \<Rightarrow> http_response" where
  "timeout_layer timeout a fut =
     (case timeout (app_timeout a) fut of
        Some r \<Rightarrow> r
      | None \<Rightarrow> \<lparr>rs_status = app_timeout_status a, rs_body = NoBody\<rparr>)"

section \<open>Shutdown\<close>

text \<open>
  When a future completes, if ever; \<open>select\<close> completes with the first. Registering for a
  signal can fail: \<open>let _ = ctrl_c().await\<close> and \<open>if let Ok(sig) = ..\<close> both go on at once then.
  Outside Unix there is no \<open>SIGTERM\<close>.
\<close>

type_synonym 'e signal = "'e + duration option"

definition first_of :: "duration option \<Rightarrow> duration option \<Rightarrow> duration option" where
  "first_of a b = (case (a, b) of
     (Some s, Some t) \<Rightarrow> Some (min s t) | (Some s, None) \<Rightarrow> Some s | (None, t) \<Rightarrow> t)"

definition shutdown_signal :: "bool \<Rightarrow> 'e signal \<Rightarrow> 'e signal \<Rightarrow> duration option" where
  "shutdown_signal unix sigint sigterm =
     (let ctrl_c = (case sigint of Inl _ \<Rightarrow> Some 0 | Inr t \<Rightarrow> t);
          terminate = (if unix then (case sigterm of Inl _ \<Rightarrow> Some 0 | Inr t \<Rightarrow> t) else None)
      in first_of ctrl_c terminate)"

section \<open>Facts\<close>

text \<open>The whole surface: five paths, each with its methods.\<close>

context router begin

lemma route_spec:
  "route (app_routes (build_app d)) verb path =
     (if path = ''/graphql'' then
        (case verb of POST \<Rightarrow> Inr GraphqlHandler | Other _ \<Rightarrow> Inl 405 | _ \<Rightarrow> Inr Playground)
      else if path = ''/graphql/ws'' then Inr GraphqlWs
      else if path \<in> {''/health/live'', ''/health/ready'', ''/metrics''} then
        (if verb = GET \<or> verb = HEAD
         then Inr (if path = ''/health/live'' then HealthLive else if path = ''/health/ready'' then HealthReady else Metrics)
         else Inl 405)
      else Inl 404)"
proof -
  let ?routes = "app_routes (build_app d)"
  have get_only: "route ?routes verb p = (if verb = GET \<or> verb = HEAD then Inr e else Inl 405)"
    if "map_of ?routes p = Some (ByMethod [(GET, e)])" for p e
    using by_method [OF that, of GET e] head_as_get [OF that, of e] not_taken [OF that, of verb]
    by (cases verb) simp_all
  have path: "map_of ?routes ''/graphql'' = Some (ByMethod [(GET, Playground), (POST, GraphqlHandler)])"
    by (simp add: build_app_def)
  have graphql: "route ?routes verb ''/graphql'' =
      (case verb of POST \<Rightarrow> Inr GraphqlHandler | Other _ \<Rightarrow> Inl 405 | _ \<Rightarrow> Inr Playground)"
    using by_method [OF path, of GET] by_method [OF path, of POST] head_as_get [OF path] not_taken [OF path, of verb]
    by (cases verb) simp_all
  have health: "route ?routes verb p = (if verb = GET \<or> verb = HEAD then Inr e else Inl 405)"
    if "(p, e) \<in> {(''/health/live'', HealthLive), (''/health/ready'', HealthReady), (''/metrics'', Metrics)}" for p e
    using that by (intro get_only) (auto simp: build_app_def)
  have ws: "route ?routes verb ''/graphql/ws'' = Inr GraphqlWs"
    by (rule any_method) (simp add: build_app_def)
  show ?thesis
    using graphql ws health [of "''/health/live''"] health [of "''/health/ready''"] health [of "''/metrics''"]
      unknown_path [of ?routes path verb]
    by (simp add: build_app_def)
qed

end

text \<open>A handler that is ready in time is answered, one that never is gets the status of the layer.\<close>

lemma timeout_layer_spec:
  assumes "timer timeout completes"
  shows "completes fut = Some (t, r) \<Longrightarrow> t = 0 \<or> t < app_timeout a \<Longrightarrow> timeout_layer timeout a fut = r"
    and "completes fut = None \<Longrightarrow> rs_status (timeout_layer timeout a fut) = app_timeout_status a"
  by (simp_all add: timeout_layer_def timer.in_time [OF assms] timer.never [OF assms])

text \<open>Shutdown begins with the first signal, if both could be registered.\<close>

lemma shutdown_signal_spec:
  "shutdown_signal True (Inr s) (Inr t) = Some d \<longleftrightarrow>
     (s = Some d \<and> (\<forall>u. t = Some u \<longrightarrow> d \<le> u)) \<or> (t = Some d \<and> (\<forall>u. s = Some u \<longrightarrow> d \<le> u))"
  by (cases s; cases t) (auto simp: shutdown_signal_def first_of_def min_def)

lemma shutdown_unregistered:
  "shutdown_signal unix (Inl e) y = Some 0"
  "shutdown_signal True x (Inl e) = Some 0"
  by (simp_all add: shutdown_signal_def first_of_def Let_def split: option.split sum.split)

section \<open>Where a handler panics\<close>

lemma root_loop_None:
  "level \<le> 64 \<Longrightarrow> root_loop K m bits level n ss = None \<longleftrightarrow> m = Checked \<and> 64 < level + length ss"
proof (induction ss arbitrary: level n)
  case (Cons s ss)
  show ?case
  proof (cases "level < 64")
    case True
    then show ?thesis using Cons.IH [of "Suc level"] by (simp add: Let_def)
  next
    case False
    have "root_loop K Wrapping bits k n ss \<noteq> None" for k n
      by (induction ss arbitrary: k n) (simp_all add: shr_u64_def shift_amount_def Let_def)
    with False Cons.prems show ?thesis
      by (cases m) (simp_all add: shr_u64_def shift_amount_def Let_def)
  qed
qed simp

lemma verify_None: "verify K m leaf ss bits r = None \<longleftrightarrow> m = Checked \<and> 64 < length ss"
  by (simp add: verify_def compute_root_def root_loop_None)

text \<open>The sums of the statistics over the stored identities fit 64 bits.\<close>

definition stats_fit :: "arith_mode \<Rightarrow> ('i, 'j, 't) ports \<Rightarrow> ('i, 'j, 't) engine \<Rightarrow> bool" where
  "stats_fit m P E \<longleftrightarrow> (\<forall>ids. sto_all (p_identities P) (eg_identities E) = Inr ids \<longrightarrow>
     sum_u64 m 0 (map (\<lambda>i. of_nat (length (idv_passkeys i))) ids) \<noteq> None \<and>
     sum_u64 m 0 (map (\<lambda>i. of_nat (length (idv_attestations i))) ids) \<noteq> None)"

text \<open>The two fields that panic, in the state that they are executed in.\<close>

definition panics_at :: "arith_mode \<Rightarrow> ('i, 'j, 't) ports \<Rightarrow> gql_field \<Rightarrow> ('i, 'j, 't) engine \<Rightarrow> bool" where
  "panics_at m P f E \<longleftrightarrow>
    (\<exists>issuer a. parse_key issuer = Inr a \<and>
      (f = QProof issuer 0 \<and> leaf_lookup (p_trees P) (eg_trees E) a = Some [] \<or>
       (\<exists>leaf siblings bits. f = MVerifyProof issuer leaf siblings bits \<and> m = Checked \<and> 64 < length siblings \<and>
          list_all hex32 (leaf # siblings) \<and> store_map (p_issuers P) (eg_issuers E) a \<noteq> None)))"

text \<open>Everything that is stored is within the bounds of its counters.\<close>

definition fits :: "arith_mode \<Rightarrow> ('i, 'j, 't) ports \<Rightarrow> ('i, 'j, 't) engine \<Rightarrow> bool" where
  "fits m P E \<longleftrightarrow> stats_fit m P E \<and>
     (\<forall>a leaves. leaf_lookup (p_trees P) (eg_trees E) a = Some leaves \<longrightarrow> length leaves \<le> 2 ^ 64)"

context engine_ports begin

lemma verify_proof_None:
  "verify_proof K m P E a pf = None \<longleftrightarrow>
     store_map (p_issuers P) (eg_issuers E) a \<noteq> None \<and> m = Checked \<and> 64 < length (mp_siblings pf)"
proof (cases "store_map (p_issuers P) (eg_issuers E) a")
  case (Some v)
  then show ?thesis
    using verify_None [of K m "dg_bytes (mp_leaf pf)" "map dg_bytes (mp_siblings pf)" "mp_index_bits pf"
        "dg_bytes (isv_merkle_root v)"]
    by (cases "verify K m (dg_bytes (mp_leaf pf)) (map dg_bytes (mp_siblings pf)) (mp_index_bits pf)
        (dg_bytes (isv_merkle_root v))") (simp_all add: verify_proof_def iss.get_content)
qed (simp add: verify_proof_def iss.get_content)

lemma field_panics:
  assumes "stats_fit m P E"
    and "\<And>a leaves. leaf_lookup (p_trees P) (eg_trees E) a = Some leaves \<Longrightarrow> length leaves \<le> 2 ^ 64"
  shows "exec_field K m P f E = None \<longleftrightarrow> panics_at m P f E"
proof (cases f)
  case QStats
  have "stats m P E \<noteq> None"
    using assms(1) by (auto simp: stats_fit_def stats_def split: sum.splits option.splits)
  with QStats show ?thesis by (simp add: query_stats_def panics_at_def)
next
  case (QProof issuer index)
  show ?thesis
  proof (cases "parse_key issuer")
    case (Inr a)
    with QProof prove_eq [where E = E and a = a and K = K and m = m and index = "unat index", OF assms(2)] show ?thesis
      by (auto simp: query_proof_def panics_at_def split: option.splits if_splits simp flip: unat_eq_zero)
  qed (use QProof in \<open>simp add: query_proof_def panics_at_def\<close>)
next
  case (MBuildTree issuer leaves)
  then show ?thesis
    by (auto simp: mutate_build_tree_def panics_at_def build_tree_eq res_simps split: sum.splits option.splits)
next
  case (MVerifyProof issuer leaf siblings bits)
  then show ?thesis
    by (auto simp: mutate_verify_proof_def panics_at_def verify_proof_None parse_bad parse_digests_bad split: if_splits)
qed (simp_all add: panics_at_def)

text \<open>Fields keep the identities, and trees within \<open>2 ^ 64\<close> leaves.\<close>

lemma exec_field_fits:
  assumes "fits m P E" and "exec_field K m P f E = Some (r, E')"
    and "\<And>issuer leaves. f = MBuildTree issuer leaves \<Longrightarrow> length leaves \<le> 2 ^ 64"
  shows "fits m P E'"
proof (cases f)
  case (MIngestIssuer address authority schema_id)
  with assms(1,2) show ?thesis
    by (auto simp: mutate_ingest_issuer_def ingest_issuer_eq publish_def fits_def stats_fit_def
        split: sum.splits)
next
  case (MBuildTree issuer leaves)
  have "length ds \<le> 2 ^ 64" if "parse_digests leaves = Inr ds" for ds
    using parse_digests_length [OF that] assms(3) [OF MBuildTree] by simp
  with MBuildTree assms(1,2) show ?thesis
    by (auto simp: mutate_build_tree_def build_tree_eq publish_def fits_def stats_fit_def res_simps
        trees.leaf_lookup_put split: sum.splits option.splits if_splits)
next
  case (MVerifyProof issuer leaf siblings bits)
  with assms(1,2) show ?thesis
    by (auto simp: mutate_verify_proof_def verify_proof_def publish_def fits_def stats_fit_def
        split: sum.splits option.splits)
qed (use assms(1,2) in auto)

lemma exec_fields_panics:
  assumes "fits m P E" and "\<And>issuer leaves. MBuildTree issuer leaves \<in> set fs \<Longrightarrow> length leaves \<le> 2 ^ 64"
  shows "exec_fields cancel K m P fs E = None \<longleftrightarrow>
    (\<exists>before f after rs E'. fs = before @ f # after \<and> exec_fields False K m P before E = Some (rs, E') \<and>
      (cancel \<longrightarrow> \<not> list_ex isl rs) \<and> panics_at m P f E')"
  using assms
proof (induction fs arbitrary: E)
  case (Cons g fs)
  have panics: "exec_field K m P g E = None \<longleftrightarrow> panics_at m P g E"
    using Cons.prems(1) by (intro field_panics) (auto simp: fits_def)
  show ?case
  proof (cases "exec_field K m P g E")
    case None
    then show ?thesis using panics by (auto intro!: exI [of _ "[]"])
  next
    case (Some q)
    obtain r E1 where q: "q = (r, E1)" by (cases q)
    have step: "exec_field K m P g E = Some (r, E1)" using Some q by simp
    have "fits m P E1"
    proof (rule exec_field_fits [OF Cons.prems(1) step])
      show "length leaves \<le> 2 ^ 64" if "g = MBuildTree issuer leaves" for issuer leaves
        using Cons.prems(2) [of issuer leaves] that by simp
    qed
    moreover have "length leaves \<le> 2 ^ 64" if "MBuildTree issuer leaves \<in> set fs" for issuer leaves
      using Cons.prems(2) [of issuer leaves] that by simp
    ultimately have rest: "exec_fields cancel K m P fs E1 = None \<longleftrightarrow>
      (\<exists>before f after rs E'. fs = before @ f # after \<and> exec_fields False K m P before E1 = Some (rs, E') \<and>
        (cancel \<longrightarrow> \<not> list_ex isl rs) \<and> panics_at m P f E')" by (rule Cons.IH)
    have split: "(\<exists>before f after rs E'. g # fs = before @ f # after \<and>
        exec_fields False K m P before E = Some (rs, E') \<and> (cancel \<longrightarrow> \<not> list_ex isl rs) \<and> panics_at m P f E') \<longleftrightarrow>
      \<not> (cancel \<and> isl r) \<and> (\<exists>before f after rs E'. fs = before @ f # after \<and>
        exec_fields False K m P before E1 = Some (rs, E') \<and> (cancel \<longrightarrow> \<not> list_ex isl rs) \<and> panics_at m P f E')"
      (is "?L \<longleftrightarrow> ?R")
    proof
      assume ?L
      then obtain before f after rs E' where L: "g # fs = before @ f # after"
        "exec_fields False K m P before E = Some (rs, E')" "cancel \<longrightarrow> \<not> list_ex isl rs" "panics_at m P f E'" by blast
      then obtain before' where before: "before = g # before'" using step panics by (cases before) auto
      with L(2) step obtain rs' where "exec_fields False K m P before' E1 = Some (rs', E')" "rs = r # rs'"
        by auto
      with L(1,3,4) before show ?R
        by (intro conjI exI [of _ before'] exI [of _ f] exI [of _ after] exI [of _ rs'] exI [of _ E']) auto
    next
      assume ?R
      then obtain before f after rs E' where "fs = before @ f # after" "\<not> (cancel \<and> isl r)"
        "exec_fields False K m P before E1 = Some (rs, E')" "cancel \<longrightarrow> \<not> list_ex isl rs" "panics_at m P f E'" by blast
      with step show ?L by (intro exI [of _ "g # before"] exI [of _ f] exI [of _ after] exI [of _ "r # rs"] exI [of _ E']) auto
    qed
    show ?thesis unfolding split using rest step by auto
  qed
qed simp

end

section \<open>Properties\<close>

text \<open>
  C19 Panics on the request path, exactly: whatever the stores hold within the bounds of
  their counters, and with no list of more than \<open>2 ^ 64\<close> leaves in its document,
  a request gets no response in one case only. It is sent to \<open>POST /graphql\<close> with a document one of whose root fields is, in the state that the fields before it have
  left, a query for proof 0 of an issuer whose tree was built from no leaves, or, in a build
  with overflow checks, the verification of a well-formed proof of more than 64 siblings for
  a known issuer; and no field before it failed, if the framework cancels after an error.
\<close>

theorem http_panics_exactly:
  assumes "engine_ports P ids0 ids_ok iss0 iss_ok trees0" and "router (hl_route L)" and "fits m P E"
    and "\<And>document fs issuer leaves. hl_extract L (rq_body rq) = Inr document \<Longrightarrow>
      hl_parse L document = Inr fs \<Longrightarrow> MBuildTree issuer leaves \<in> set fs \<Longrightarrow> length leaves \<le> 2 ^ 64"
  shows "handle L K m P (build_app d) M rq E = None \<longleftrightarrow>
    rq_path rq = ''/graphql'' \<and> rq_method rq = POST \<and>
    (\<exists>document before f after rs E'. hl_extract L (rq_body rq) = Inr document \<and>
      hl_parse L document = Inr (before @ f # after) \<and>
      exec_fields False K m P before E = Some (rs, E') \<and> (hl_cancels L \<longrightarrow> \<not> list_ex isl rs) \<and>
      (\<exists>issuer a. parse_key issuer = Inr a \<and>
        (f = QProof issuer 0 \<and> leaf_lookup (p_trees P) (eg_trees E') a = Some [] \<or>
         (\<exists>leaf siblings bits. f = MVerifyProof issuer leaf siblings bits \<and> m = Checked \<and>
            64 < length siblings \<and> list_all hex32 (leaf # siblings) \<and>
            store_map (p_issuers P) (eg_issuers E') a \<noteq> None))))"
proof -
  have handle: "handle L K m P (build_app d) M rq E = None \<longleftrightarrow>
      rq_path rq = ''/graphql'' \<and> rq_method rq = POST \<and>
      (\<exists>document fs. hl_extract L (rq_body rq) = Inr document \<and> hl_parse L document = Inr fs \<and>
        exec_fields (hl_cancels L) K m P fs E = None)"
    by (cases "rq_method rq")
      (auto simp: handle_def router.route_spec [OF assms(2)] graphql_handler_def split: sum.splits)
  have fields: "exec_fields (hl_cancels L) K m P fs E = None \<longleftrightarrow>
      (\<exists>before f after rs E'. fs = before @ f # after \<and> exec_fields False K m P before E = Some (rs, E') \<and>
        (hl_cancels L \<longrightarrow> \<not> list_ex isl rs) \<and> panics_at m P f E')"
    if "hl_extract L (rq_body rq) = Inr document" "hl_parse L document = Inr fs" for document fs
    using assms(4) [OF that] by (intro engine_ports.exec_fields_panics [OF assms(1,3)])
  show ?thesis
    unfolding handle panics_at_def [symmetric] by (simp add: fields cong: conj_cong) blast
qed

text \<open>
  Libraries as documented, with a parser that finds the fields \<open>fs\<close> in every document; and a
  document that panics on an empty node: it ingests an issuer and then verifies a proof of
  65 siblings for it.
\<close>

definition lib_of :: "gql_field list \<Rightarrow> 'm http_lib" where
  "lib_of fs = \<lparr>hl_route = table_route, hl_extract = Inr, hl_parse = (\<lambda>_. Inr fs), hl_cancels = True,
     hl_playground = (@), hl_render = (\<lambda>_. []), hl_websocket = (\<lambda>_. health_live)\<rparr>"

definition long_proof :: "gql_field list" where
  "long_proof =
     (let issuer = pubkey_to_hex (Pubkey (arr_fill 9)); node = digest_to_hex digest_zero
      in [MIngestIssuer issuer issuer node, MVerifyProof issuer node (replicate 65 node) 0])"

theorem http_panics_exactly_witness:
  "handle (lib_of long_proof) trunc_keccak Checked test_ports (build_app 5) ()
     \<lparr>rq_method = POST, rq_path = ''/graphql'', rq_body = []\<rparr> (empty_engine [] [] []) = None"
proof -
  let ?E = "empty_engine [] [] [] :: (identity_view list, issuer_view list, (pubkey \<times> digest list) list) engine"
  have fits: "fits Checked test_ports ?E"
    by (simp add: fits_def stats_fit_def test_ports_def MemIdentities_def MemTrees_def vec_store_def
        empty_engine_def leaf_lookup_def)
  show ?thesis
  proof (rule iffD2 [OF http_panics_exactly [OF test.engine_ports_axioms _ fits]], goal_cases)
    case 1
    show ?case by (simp add: lib_of_def table.router_axioms)
  next
    case (2 document fs issuer leaves)
    then show ?case by (auto simp: lib_of_def long_proof_def Let_def)
  next
    case 3
    let ?key = "pubkey_to_hex (Pubkey (arr_fill 9))" and ?node = "digest_to_hex digest_zero"
    obtain rs E' where run: "exec_fields False trunc_keccak Checked test_ports [MIngestIssuer ?key ?key ?node] ?E = Some (rs, E')"
      "\<not> list_ex isl rs" "store_map (p_issuers test_ports) (eg_issuers E') (Pubkey (arr_fill 9)) \<noteq> None"
      by (simp add: mutate_ingest_issuer_def ingest_issuer_def as_value_def test_ports_def MemIssuers_def vec_store_def
          empty_engine_def store_map_def publish_def)
    have "hex32 ?node" by (simp add: hex32_def digest_to_hex_def)
    then have "list_all hex32 (?node # replicate 65 ?node)" by (simp add: list_all_iff del: replicate.simps)
    with run show ?case
      by (auto simp: lib_of_def long_proof_def Let_def intro!: exI [of _ "[MIngestIssuer ?key ?key ?node]"])
  qed
qed

end
