(* ===== verification/Node_System.thy ===== *)
theory Node_System
  imports Keeper
begin

text \<open>
  The running node: the tasks of the API requests, the poller and the scanner of
  \<open>node/src/keeper.rs\<close>, all on one engine, interleaved at their await points. A step of the
  system is the arrival of a request or one port call, one publication or one poll of the
  data source by one of the parties. A party that panics stops; the runtime keeps the
  others going. A request whose deadline passes, or whose client goes away, is dropped. The
  model allows that before every step of the request, more than the in-memory adapters do,
  whose futures are ready at once: what holds of all actions holds of the node, and no
  property exhibits a run in which a request is dropped halfway.
\<close>

section \<open>Parties\<close>

text \<open>
  The poller between two ticks, with the polled identities in hand, and while it ingests:
  the ingest under way, those to come, and the number it will report.
\<close>

datatype poller =
    PollIdle
  | PollGot "identity_view list"
  | PollIngest task "request list" nat
  | PollDead

datatype scanner = ScanIdle | ScanGot "identity_view list" | ScanDead

record ('i, 'j, 't, 'f) node_state =
  ns_engine :: "('i, 'j, 't) engine"
  ns_metrics :: "'f metrics"
  ns_poller :: poller
  ns_scanner :: scanner
  ns_tasks :: "task option list"

section \<open>Steps\<close>

definition poll_failed :: "'f metrics \<Rightarrow> poller \<times> 'f metrics" where
  "poll_failed M = (PollIdle, M\<lparr>mx_poll_errors := mx_poll_errors M + 1\<rparr>)"

text \<open>After an ingest, or before the first: the next one, or the end of the cycle.\<close>

fun poll_continue :: "request list \<Rightarrow> nat \<Rightarrow> 'f metrics \<Rightarrow> poller \<times> 'f metrics" where
  "poll_continue [] n M = (PollIdle, M\<lparr>mx_poll_total := mx_poll_total M + 1\<rparr>)"
| "poll_continue (r # rs) n M = (PollIngest (Start r) rs n, M)"

fun poller_step ::
    "'h keccak \<Rightarrow> arith_mode \<Rightarrow> ('i, 'j, 't) ports \<Rightarrow> source \<Rightarrow>
     poller \<Rightarrow> ('i, 'j, 't) engine \<Rightarrow> 'f metrics \<Rightarrow> (poller \<times> 'f metrics) \<times> ('i, 'j, 't) engine"
where
  "poller_step K m P src PollIdle E M =
     (case src_identities src of
        Inl e \<Rightarrow> (poll_failed M, E)
      | Inr identities \<Rightarrow> ((PollGot identities, M), E))"
| "poller_step K m P src (PollGot identities) E M =
     (case src_issuers src of
        Inl e \<Rightarrow> (poll_failed M, E)
      | Inr issuers \<Rightarrow>
          (poll_continue (map IngestIdentity identities @ map IngestIssuer issuers)
             (length identities + length issuers) M, E))"
| "poller_step K m P src (PollIngest t rs n) E M =
     (case task_step K m P t E of
        None \<Rightarrow> ((PollDead, M), E)
      | Some (Finished (Inr _), E') \<Rightarrow> (poll_continue rs n M, E')
      | Some (Finished (Inl e), E') \<Rightarrow> (poll_failed M, E')
      | Some (t', E') \<Rightarrow> ((PollIngest t' rs n, M), E'))"
| "poller_step K m P src PollDead E M = ((PollDead, M), E)"

definition scan_failed :: "'f metrics \<Rightarrow> scanner \<times> 'f metrics" where
  "scan_failed M = (ScanIdle, M\<lparr>mx_scan_errors := mx_scan_errors M + 1\<rparr>)"

text \<open>The two listings of \<open>stats\<close> are two port calls; an overflowing sum panics.\<close>

fun scanner_step ::
    "arith_mode \<Rightarrow> (u64 \<Rightarrow> 'f) \<Rightarrow> ('i, 'j, 't) ports \<Rightarrow> scanner \<Rightarrow> ('i, 'j, 't) engine \<Rightarrow> 'f metrics \<Rightarrow>
     scanner \<times> 'f metrics"
where
  "scanner_step m to_f64 P ScanIdle E M =
     (case sto_all (p_identities P) (eg_identities E) of
        Inl e \<Rightarrow> scan_failed M
      | Inr identities \<Rightarrow> (ScanGot identities, M))"
| "scanner_step m to_f64 P (ScanGot identities) E M =
     (case sto_all (p_issuers P) (eg_issuers E) of
        Inl e \<Rightarrow> scan_failed M
      | Inr issuers \<Rightarrow>
          (case (sum_u64 m 0 (map (\<lambda>i. of_nat (length (idv_passkeys i))) identities),
                 sum_u64 m 0 (map (\<lambda>i. of_nat (length (idv_attestations i))) identities)) of
             (Some passkeys, Some attestations) \<Rightarrow>
               (ScanIdle, M\<lparr>mx_identities := Some (to_f64 (of_nat (length identities))),
                  mx_issuers := Some (to_f64 (of_nat (length issuers))),
                  mx_passkeys := Some (to_f64 passkeys),
                  mx_attestations := Some (to_f64 attestations),
                  mx_scan_total := mx_scan_total M + 1\<rparr>)
           | _ \<Rightarrow> (ScanDead, M)))"
| "scanner_step m to_f64 P ScanDead E M = (ScanDead, M)"

datatype action = Arrive request | Run nat | Drop nat | Keep source | Scan

fun node_step ::
    "'h keccak \<Rightarrow> arith_mode \<Rightarrow> (u64 \<Rightarrow> 'f) \<Rightarrow> ('i, 'j, 't) ports \<Rightarrow> action \<Rightarrow>
     ('i, 'j, 't, 'f) node_state \<Rightarrow> ('i, 'j, 't, 'f) node_state"
where
  "node_step K m to_f64 P (Arrive r) s = s\<lparr>ns_tasks := ns_tasks s @ [Some (Start r)]\<rparr>"
| "node_step K m to_f64 P (Run k) s =
     (if k < length (ns_tasks s) then
        (case ns_tasks s ! k of
           None \<Rightarrow> s
         | Some t \<Rightarrow>
             (case task_step K m P t (ns_engine s) of
                None \<Rightarrow> s\<lparr>ns_tasks := (ns_tasks s)[k := None]\<rparr>
              | Some (t', E') \<Rightarrow> s\<lparr>ns_tasks := (ns_tasks s)[k := Some t'], ns_engine := E'\<rparr>))
      else s)"
| "node_step K m to_f64 P (Drop k) s =
     (if k < length (ns_tasks s) then
        (case ns_tasks s ! k of
           Some (Finished r) \<Rightarrow> s
         | _ \<Rightarrow> s\<lparr>ns_tasks := (ns_tasks s)[k := None]\<rparr>)
      else s)"
| "node_step K m to_f64 P (Keep src) s =
     (let ((p, M), E) = poller_step K m P src (ns_poller s) (ns_engine s) (ns_metrics s)
      in s\<lparr>ns_poller := p, ns_metrics := M, ns_engine := E\<rparr>)"
| "node_step K m to_f64 P Scan s =
     (let (c, M) = scanner_step m to_f64 P (ns_scanner s) (ns_engine s) (ns_metrics s)
      in s\<lparr>ns_scanner := c, ns_metrics := M\<rparr>)"

text \<open>The node as it starts: its keepers idle, no request yet.\<close>

definition node_start :: "('i, 'j, 't) engine \<Rightarrow> ('i, 'j, 't, 'f) node_state" where
  "node_start E = \<lparr>ns_engine = E, ns_metrics = metrics_start, ns_poller = PollIdle,
     ns_scanner = ScanIdle, ns_tasks = []\<rparr>"

text \<open>The states reached by actions of which each is \<open>ok\<close>.\<close>

inductive node_steps ::
    "'h keccak \<Rightarrow> arith_mode \<Rightarrow> (u64 \<Rightarrow> 'f) \<Rightarrow> ('i, 'j, 't) ports \<Rightarrow> (action \<Rightarrow> bool) \<Rightarrow>
     ('i, 'j, 't, 'f) node_state \<Rightarrow> ('i, 'j, 't, 'f) node_state \<Rightarrow> bool"
  for K m to_f64 P ok s0
where
  start: "node_steps K m to_f64 P ok s0 s0"
| step: "node_steps K m to_f64 P ok s0 s \<Longrightarrow> ok act \<Longrightarrow>
    node_steps K m to_f64 P ok s0 (node_step K m to_f64 P act s)"

text \<open>A given sequence of actions.\<close>

definition node_run where
  "node_run K m to_f64 P acts s = foldl (\<lambda>s act. node_step K m to_f64 P act s) s acts"

lemma node_run_steps: "list_all ok acts \<Longrightarrow> node_steps K m to_f64 P ok s (node_run K m to_f64 P acts s)"
proof (induction acts rule: rev_induct)
  case (snoc act acts)
  then show ?case by (auto simp: node_run_def intro: node_steps.step)
qed (simp add: node_run_def node_steps.start)

section \<open>Parties that leave an issuer alone\<close>

fun leaves_alone :: "pubkey \<Rightarrow> action \<Rightarrow> bool" where
  "leaves_alone a (Arrive r) \<longleftrightarrow> \<not> touches a r"
| "leaves_alone a (Keep src) \<longleftrightarrow>
     (case src_issuers src of Inl e \<Rightarrow> True | Inr issuers \<Rightarrow> list_all (\<lambda>v. isv_address v \<noteq> a) issuers)"
| "leaves_alone a _ \<longleftrightarrow> True"

fun poller_quiet :: "pubkey \<Rightarrow> poller \<Rightarrow> bool" where
  "poller_quiet a (PollIngest t rs n) \<longleftrightarrow> \<not> task_touches a t \<and> list_all (\<lambda>r. \<not> touches a r) rs"
| "poller_quiet a _ \<longleftrightarrow> True"

fun task_quiet :: "pubkey \<Rightarrow> task option \<Rightarrow> bool" where
  "task_quiet a (Some t) \<longleftrightarrow> \<not> task_touches a t"
| "task_quiet a None \<longleftrightarrow> True"

definition quiet :: "pubkey \<Rightarrow> ('i, 'j, 't, 'f) node_state \<Rightarrow> bool" where
  "quiet a s \<longleftrightarrow> poller_quiet a (ns_poller s) \<and> list_all (task_quiet a) (ns_tasks s)"

lemma poll_continue_quiet:
  "list_all (\<lambda>r. \<not> touches a r) rs \<Longrightarrow> poller_quiet a (fst (poll_continue rs n M))"
  by (cases rs) auto

context engine_ports begin

lemma task_step_ok:
  "engine_ok E \<Longrightarrow> task_step K m P t E = Some (t', E') \<Longrightarrow> engine_ok E'"
  by (cases "(K, m, P, t, E)" rule: task_step.cases)
    (auto simp: ids.upsert_case iss.upsert_case trees.put_case Let_def publish_def engine_ok_def
      ids.ok_upsert iss.ok_upsert split: sum.splits option.splits)

text \<open>The poller, when it has nothing to do with the issuer.\<close>

lemma poller_step_frame:
  assumes "engine_ok E" and "poller_quiet a p" and "leaves_alone a (Keep src)"
    and "poller_step K m P src p E M = ((p', M'), E')"
  shows "engine_ok E' \<and> poller_quiet a p' \<and>
    sv_issuers (service_of P E') a = sv_issuers (service_of P E) a \<and>
    sv_leaves (service_of P E') a = sv_leaves (service_of P E) a"
proof (cases p)
  case PollIdle
  with assms show ?thesis by (auto simp: poll_failed_def split: sum.splits)
next
  case (PollGot identities)
  show ?thesis
  proof (cases "src_issuers src")
    case (Inl e)
    with assms PollGot show ?thesis by (auto simp: poll_failed_def)
  next
    case (Inr issuers)
    then have "list_all (\<lambda>r. \<not> touches a r) (map IngestIdentity identities @ map IngestIssuer issuers)"
      using assms(3) by (auto simp: list_all_iff)
    from poll_continue_quiet [OF this, of "length identities + length issuers" M] assms PollGot Inr
    show ?thesis by auto
  qed
next
  case (PollIngest t rs n)
  show ?thesis
  proof (cases "task_step K m P t E")
    case None
    with assms PollIngest show ?thesis by auto
  next
    case (Some p1)
    obtain t1 E1 where step: "task_step K m P t E = Some (t1, E1)" using Some by (cases p1) simp
    have frame: "engine_ok E1 \<and> \<not> task_touches a t1 \<and>
        sv_issuers (service_of P E1) a = sv_issuers (service_of P E) a \<and>
        sv_leaves (service_of P E1) a = sv_leaves (service_of P E) a"
      using assms(2) PollIngest by (intro other_task_frame [OF assms(1) step]) simp
    have "E' = E1 \<and> poller_quiet a p'"
      using assms(2,4) PollIngest step frame poll_continue_quiet [of a rs n M]
      by (cases t1) (auto simp: poll_failed_def split: sum.splits)
    with frame show ?thesis by simp
  qed
next
  case PollDead
  with assms show ?thesis by auto
qed

lemma node_step_ok: "engine_ok (ns_engine s) \<Longrightarrow> engine_ok (ns_engine (node_step K m to_f64 P act s))"
proof (cases act)
  case (Keep src)
  assume ok: "engine_ok (ns_engine s)"
  have "engine_ok (snd (poller_step K m P src p E M))" if "engine_ok E" for p E M
    using that task_step_ok [OF that, of K m]
    by (cases "(K, m, P, src, p, E, M)" rule: poller_step.cases)
      (auto split: sum.splits option.splits task.splits)
  with Keep ok show ?thesis by (auto simp: case_prod_unfold Let_def)
qed (auto simp: task_step_ok Let_def split: option.splits prod.splits task.splits)

lemma node_steps_ok:
  "node_steps K m to_f64 P ok s0 s \<Longrightarrow> engine_ok (ns_engine s0) \<Longrightarrow> engine_ok (ns_engine s)"
  by (induction rule: node_steps.induct) (auto simp: node_step_ok simp del: node_step.simps)

end

section \<open>One builder among all parties\<close>

text \<open>
  The issuer \<open>a\<close> while a single build of its tree, the task \<open>k\<close>, is under way: that task
  knows what a builder knows, and nobody else is about to touch the issuer.
\<close>

definition builder_alone ::
    "'h keccak \<Rightarrow> ('i, 'j, 't) ports \<Rightarrow> pubkey \<Rightarrow> digest list \<Rightarrow> nat \<Rightarrow> ('i, 'j, 't, 'f) node_state \<Rightarrow> bool"
where
  "builder_alone K P a leaves k s \<longleftrightarrow>
     k < length (ns_tasks s) \<and>
     (\<forall>t. ns_tasks s ! k = Some t \<longrightarrow> builder_inv K (service_of P (ns_engine s)) a leaves t) \<and>
     poller_quiet a (ns_poller s) \<and>
     (\<forall>j < length (ns_tasks s). j \<noteq> k \<longrightarrow> task_quiet a (ns_tasks s ! j))"

context engine_ports begin

lemma builder_alone_frame:
  assumes "builder_alone K P a leaves k s"
    and "sv_issuers (service_of P E') a = sv_issuers (service_of P (ns_engine s)) a"
    and "sv_leaves (service_of P E') a = sv_leaves (service_of P (ns_engine s)) a"
  shows "\<forall>t. ns_tasks s ! k = Some t \<longrightarrow> builder_inv K (service_of P E') a leaves t"
  using assms builder_inv_frame [OF assms(2,3)] by (auto simp: builder_alone_def)

lemma builder_alone_run:
  assumes "engine_ok (ns_engine s)" and "builder_alone K P a leaves k s"
  shows "builder_alone K P a leaves k (node_step K m to_f64 P (Run j) s)"
proof (cases "j < length (ns_tasks s) \<and> ns_tasks s ! j \<noteq> None")
  case False
  with assms(2) show ?thesis by auto
next
  case True
  then obtain t where t: "j < length (ns_tasks s)" "ns_tasks s ! j = Some t" by auto
  show ?thesis
  proof (cases "task_step K m P t (ns_engine s)")
    case None
    with t assms(2) show ?thesis by (auto simp: builder_alone_def nth_list_update)
  next
    case (Some p)
    then obtain t' E' where step: "task_step K m P t (ns_engine s) = Some (t', E')" by (cases p) simp
    show ?thesis
    proof (cases "j = k")
      case True
      with builder_step [OF assms(1) step, of a leaves] t step assms(2) show ?thesis
        by (auto simp: builder_alone_def nth_list_update)
    next
      case False
      have "\<not> task_touches a t" using assms(2) t False by (force simp: builder_alone_def)
      note frame = other_task_frame [OF assms(1) step this]
      have "\<forall>u. ns_tasks s ! k = Some u \<longrightarrow> builder_inv K (service_of P E') a leaves u"
        using frame by (intro builder_alone_frame [OF assms(2)]) simp_all
      then show ?thesis
        using t step frame False assms(2) by (auto simp: builder_alone_def nth_list_update)
    qed
  qed
qed

lemma builder_alone_step:
  assumes "engine_ok (ns_engine s)" and "builder_alone K P a leaves k s" and "leaves_alone a act"
  shows "builder_alone K P a leaves k (node_step K m to_f64 P act s)"
proof (cases act)
  case (Arrive r)
  with assms(2,3) show ?thesis by (auto simp: builder_alone_def nth_append)
next
  case (Run j)
  with builder_alone_run [OF assms(1,2)] show ?thesis by (simp del: node_step.simps)
next
  case (Drop j)
  have "builder_alone K P a leaves k (s\<lparr>ns_tasks := (ns_tasks s)[j := None]\<rparr>)" if "j < length (ns_tasks s)"
    using assms(2) that by (auto simp: builder_alone_def nth_list_update)
  with Drop assms(2) show ?thesis by (simp split: option.split task.split)
next
  case (Keep src)
  obtain p' M' E' where step: "poller_step K m P src (ns_poller s) (ns_engine s) (ns_metrics s) = ((p', M'), E')"
    by (metis prod.collapse)
  have "poller_quiet a (ns_poller s)" using assms(2) by (simp add: builder_alone_def)
  note frame = poller_step_frame [OF assms(1) this assms(3) [unfolded Keep] step]
  have "\<forall>u. ns_tasks s ! k = Some u \<longrightarrow> builder_inv K (service_of P E') a leaves u"
    using frame by (intro builder_alone_frame [OF assms(2)]) simp_all
  with frame assms(2) step Keep show ?thesis by (simp add: builder_alone_def)
next
  case Scan
  with assms(2) show ?thesis by (auto simp: builder_alone_def split: prod.splits)
qed

lemma builder_alone_steps:
  assumes "node_steps K m to_f64 P (leaves_alone a) s0 s" and "engine_ok (ns_engine s0)"
    and "builder_alone K P a leaves k s0"
  shows "builder_alone K P a leaves k s"
  using assms
proof (induction rule: node_steps.induct)
  case (step s act)
  then show ?case by (intro builder_alone_step node_steps_ok [OF step.hyps(1)]) simp_all
qed simp

end

text \<open>A poll of one issuer in the middle of a build of its tree.\<close>

definition poll_in_build :: "nat \<Rightarrow> pubkey \<Rightarrow> digest list \<Rightarrow> issuer_view \<Rightarrow> action list" where
  "poll_in_build k a leaves w =
     (let src = \<lparr>src_identities = Inr [], src_issuers = Inr [w]\<rparr>
      in [Arrive (BuildTree a leaves), Run k, Keep src, Keep src, Keep src, Keep src,
          Run k, Run k, Run k])"

context engine_ports begin

lemma poll_in_build_run:
  assumes "engine_ok (ns_engine s)" and "ns_poller s = PollIdle"
    and "store_map (p_issuers P) (eg_issuers (ns_engine s)) a = Some v" and "isv_address w = a"
  shows "\<exists>s'. node_run K m to_f64 P (poll_in_build (length (ns_tasks s)) a leaves w) s = s' \<and>
    ns_tasks s' = ns_tasks s @ [Some (Finished (Inr (Root (root_of K leaves))))] \<and>
    mx_poll_total (ns_metrics s') = mx_poll_total (ns_metrics s) + 1 \<and>
    store_map (p_issuers P) (eg_issuers (ns_engine s')) a = Some (v\<lparr>isv_merkle_root := root_of K leaves\<rparr>)"
proof -
  have "isv_address v = a"
    using assms(1,3) by (auto simp: engine_ok_def intro: iss.content_key)
  with assms show ?thesis
    by (simp add: node_run_def poll_in_build_def Let_def nth_append iss.get_content tree_root_digests
        iss.upsert_case trees.put_case publish_def engine_ok_def iss.ok_upsert iss.content_upsert)
qed

end

section \<open>The poller by itself\<close>

text \<open>With nobody else running, the steps of one cycle are the cycle of \<open>Keeper\<close>.\<close>

definition keep_alone where
  "keep_alone K m to_f64 P src n s = node_run K m to_f64 P (replicate n (Keep src)) s"

lemma keep_alone_Suc:
  "keep_alone K m to_f64 P src 0 s = s"
  "keep_alone K m to_f64 P src (Suc n) s =
     keep_alone K m to_f64 P src n (node_step K m to_f64 P (Keep src) s)"
  by (simp_all add: keep_alone_def node_run_def)

context engine_ports begin

lemma ingests_alone:
  "keep_alone K m to_f64 P src (2 * length (map IngestIdentity ids @ map IngestIssuer iss))
     (s\<lparr>ns_poller := fst (poll_continue (map IngestIdentity ids @ map IngestIssuer iss) n M),
        ns_metrics := snd (poll_continue (map IngestIdentity ids @ map IngestIssuer iss) n M), ns_engine := E\<rparr>) =
   s\<lparr>ns_poller := PollIdle, ns_metrics := M\<lparr>mx_poll_total := mx_poll_total M + 1\<rparr>,
     ns_engine := snd (ingest_issuers P (snd (ingest_identities P E ids)) iss)\<rparr>"
proof (induction ids arbitrary: E)
  case Nil
  show ?case
  proof (induction iss arbitrary: E)
    case (Cons v vs)
    then show ?case
      by (simp add: keep_alone_Suc numeral_2_eq_2 Let_def case_prod_unfold iss.upsert_succeeds ingest_issuer_eq)
  qed (simp add: keep_alone_Suc)
next
  case (Cons v vs)
  then show ?case
    by (simp add: keep_alone_Suc numeral_2_eq_2 Let_def case_prod_unfold ids.upsert_succeeds ingest_identity_eq)
qed

lemma poll_alone:
  assumes "ns_poller s = PollIdle" and "src_identities src = Inr ids" and "src_issuers src = Inr iss"
  shows "keep_alone K m to_f64 P src (2 + 2 * (length ids + length iss)) s =
    (let (E, M) = poll_cycle P src (ns_engine s, ns_metrics s) in s\<lparr>ns_engine := E, ns_metrics := M\<rparr>)"
proof -
  let ?rs = "map IngestIdentity ids @ map IngestIssuer iss" and ?n = "length ids + length iss"
  have "keep_alone K m to_f64 P src (2 + 2 * ?n) s = keep_alone K m to_f64 P src (2 * length ?rs)
     (s\<lparr>ns_poller := fst (poll_continue ?rs ?n (ns_metrics s)),
        ns_metrics := snd (poll_continue ?rs ?n (ns_metrics s)), ns_engine := ns_engine s\<rparr>)"
    using assms by (simp add: numeral_2_eq_2 keep_alone_Suc Let_def case_prod_unfold)
  also have "\<dots> = s\<lparr>ns_poller := PollIdle,
     ns_metrics := (ns_metrics s)\<lparr>mx_poll_total := mx_poll_total (ns_metrics s) + 1\<rparr>,
     ns_engine := snd (ingest_issuers P (snd (ingest_identities P (ns_engine s) ids)) iss)\<rparr>"
    by (rule ingests_alone)
  also have "\<dots> = (let (E, M) = poll_cycle P src (ns_engine s, ns_metrics s) in s\<lparr>ns_engine := E, ns_metrics := M\<rparr>)"
    using assms ingest_identities_runs [of "ns_engine s" ids undefined undefined]
      ingest_issuers_runs [of "snd (ingest_identities P (ns_engine s) ids)" iss undefined undefined]
    by (cases "ingest_identities P (ns_engine s) ids";
        cases "ingest_issuers P (snd (ingest_identities P (ns_engine s) ids)) iss")
      (simp add: poll_cycle_def poll_once_def Let_def)
  finally show ?thesis .
qed

end

section \<open>Properties\<close>

text \<open>
  C12 Composition of the node: after any history of requests, polls and scans, let a request
  build the tree of an issuer while nothing else that is pending, arrives or is polled
  touches that issuer. However the parties interleave, once the build has succeeded it
  returned the root of its leaves, and for every index \<open>prove\<close> mints a proof of the leaf
  that \<open>verify_proof\<close> accepts.
\<close>

theorem node_build_isolated:
  assumes "engine_ports P ids0 ids_ok iss0 iss_ok trees0"
    and "node_steps K m to_f64 P (\<lambda>_. True) (node_start (empty_engine ids0 iss0 trees0)) s" and "quiet a s"
    and "node_steps K m to_f64 P (leaves_alone a) (node_step K m to_f64 P (Arrive (BuildTree a leaves)) s) s'"
    and "ns_tasks s' ! length (ns_tasks s) = Some (Finished (Inr r))"
    and "i < length leaves" and "length leaves \<le> 2 ^ 64"
  shows "r = Root (root_of K leaves) \<and>
    (\<exists>pf E''. prove K m P (ns_engine s') a i = Some (Inr pf) \<and> mp_leaf pf = leaves ! i \<and>
      verify_proof K m P (ns_engine s') a pf = Some (Inr True, E''))"
proof -
  have ok: "engine_ports.engine_ok ids_ok iss_ok (ns_engine s)"
    using engine_ports.node_steps_ok [OF assms(1,2)] engine_ports.empty_ok [OF assms(1)]
    by (simp add: node_start_def)
  have "builder_alone K P a leaves (length (ns_tasks s)) (node_step K m to_f64 P (Arrive (BuildTree a leaves)) s)"
    using assms(3) by (auto simp: builder_alone_def quiet_def nth_append list_all_length)
  from engine_ports.builder_alone_steps [OF assms(1,4) _ this] ok
  have "builder_inv K (service_of P (ns_engine s')) a leaves (Finished (Inr r))"
    using assms(5) by (auto simp: builder_alone_def)
  then have "r = Root (root_of K leaves)" "coherent K (service_of P (ns_engine s')) a leaves" by simp_all
  then show ?thesis
    using engine_ports.coherent_prove [OF assms(1) _ assms(6,7)] by blast
qed

theorem node_build_isolated_witness:
  "\<exists>pf E''. prove trunc_keccak Checked test_ports demo_E2 (Pubkey (arr_fill 0xEE)) 0 = Some (Inr pf) \<and>
     verify_proof trunc_keccak Checked test_ports demo_E2 (Pubkey (arr_fill 0xEE)) pf = Some (Inr True, E'')"
proof -
  let ?f = "\<lambda>x :: u64. x"
  let ?init = "node_start (empty_engine [] [] []) :: (identity_view list, issuer_view list,
      (pubkey \<times> digest list) list, u64) node_state"
  let ?s = "node_run trunc_keccak Checked ?f test_ports [Arrive (IngestIssuer demo_issuer), Run 0, Run 0] ?init"
  let ?b = "BuildTree (Pubkey (arr_fill 0xEE)) demo_leaves"
  let ?s' = "node_run trunc_keccak Checked ?f test_ports [Run 1, Run 1, Run 1, Run 1]
      (node_step trunc_keccak Checked ?f test_ports (Arrive ?b) ?s)"
  have s: "?s = (node_start demo_E1)\<lparr>ns_tasks := [Some (Finished (Inr Done))]\<rparr>"
    by (simp add: node_run_def node_start_def test_ports_def MemIssuers_def vec_store_def empty_engine_def
        publish_def demo_E1_def)
  have s': "?s' = (node_start demo_E2)
      \<lparr>ns_tasks := [Some (Finished (Inr Done)), Some (Finished (Inr (Root (Digest (arr_fill 3)))))]\<rparr>"
    unfolding s
    by (simp add: node_run_def node_start_def test_ports_def MemIssuers_def MemTrees_def vec_store_def
        demo_E1_def demo_E2_def demo_leaves_def tree_root_from_leaves mroot.simps publish_def)
  have "quiet (Pubkey (arr_fill 0xEE)) ?s"
    unfolding s by (simp add: quiet_def node_start_def)
  moreover have "node_steps trunc_keccak Checked ?f test_ports (\<lambda>_. True) ?init ?s"
    by (rule node_run_steps) simp
  moreover have "node_steps trunc_keccak Checked ?f test_ports (leaves_alone (Pubkey (arr_fill 0xEE)))
      (node_step trunc_keccak Checked ?f test_ports (Arrive ?b) ?s) ?s'"
    by (rule node_run_steps) simp
  moreover have "ns_tasks ?s' ! length (ns_tasks ?s) = Some (Finished (Inr (Root (Digest (arr_fill 3)))))"
    unfolding s' unfolding s by simp
  ultimately have "\<exists>pf E''. prove trunc_keccak Checked test_ports (ns_engine ?s') (Pubkey (arr_fill 0xEE)) 0 = Some (Inr pf) \<and>
     verify_proof trunc_keccak Checked test_ports (ns_engine ?s') (Pubkey (arr_fill 0xEE)) pf = Some (Inr True, E'')"
    using node_build_isolated [OF test.engine_ports_axioms, of trunc_keccak Checked ?f ?s
        "Pubkey (arr_fill 0xEE)" demo_leaves ?s' "Root (Digest (arr_fill 3))" 0]
    by (auto simp: demo_leaves_def)
  then show ?thesis unfolding s' by (simp add: node_start_def)
qed



end
