(* ===== verification/Event_Bus.thy ===== *)
theory Event_Bus
  imports Engine "HOL-Library.Sublist" "HOL-Library.DAList"
begin

text \<open>
  The event bus of \<open>infra/src/lib.rs\<close>: one broadcast channel that is both the sink the
  engine publishes to and the source of the subscribers' streams. The channel is a
  library (\<open>tokio::sync::broadcast\<close>): a record of the operations the bus calls, with its
  documented contract as the locale \<open>channel\<close>. The bus owns the sending half, so a channel
  is never closed while it has receivers.
\<close>

section \<open>The broadcast channel\<close>

datatype 'v received = Received 'v | Lagged nat | Pending

record ('c, 'r, 'v) channel =
  ch_new :: "nat \<Rightarrow> ('c \<times> 'r) option"
  ch_send :: "'c \<Rightarrow> 'v \<Rightarrow> ('v + nat) \<times> 'c"
  ch_subscribe :: "'c \<Rightarrow> 'r \<times> 'c"
  ch_recv :: "'c \<Rightarrow> 'r \<Rightarrow> 'v received \<times> 'c"
  ch_drop :: "'c \<Rightarrow> 'r \<Rightarrow> 'c"
  ch_receivers :: "'c \<Rightarrow> nat"

text \<open>
  What a channel stands for: everything that was ever sent, the number of values each live
  receiver has passed, and the capacity. A receiver more than the capacity behind is told
  how many values it has missed and moved to the oldest value that is still held.
\<close>

record ('r, 'v) log =
  lg_sent :: "'v list"
  lg_pos :: "'r \<Rightarrow> nat option"
  lg_cap :: nat

definition log_recv :: "('r, 'v) log \<Rightarrow> 'r \<Rightarrow> 'v received \<times> ('r, 'v) log" where
  "log_recv L r =
     (case lg_pos L r of
        None \<Rightarrow> (Pending, L)
      | Some p \<Rightarrow>
          let n = length (lg_sent L) in
          if n \<le> p then (Pending, L)
          else if lg_cap L < n - p
          then (Lagged (n - lg_cap L - p), L\<lparr>lg_pos := (lg_pos L)(r \<mapsto> n - lg_cap L)\<rparr>)
          else (Received (lg_sent L ! p), L\<lparr>lg_pos := (lg_pos L)(r \<mapsto> p + 1)\<rparr>))"

definition log_ok :: "('r, 'v) log \<Rightarrow> bool" where
  "log_ok L \<longleftrightarrow> 0 < lg_cap L \<and> (\<forall>r p. lg_pos L r = Some p \<longrightarrow> p \<le> length (lg_sent L))"

text \<open>
  The documented contract. A capacity is rounded up, and one of zero or above
  \<open>usize::MAX / 2\<close> panics (others can too, when there is no memory for the buffer); a value sent to no receiver is handed back. (A dropped receiver
  cannot be polled in Rust; here such a poll finds nothing.)
\<close>

locale channel =
  fixes C :: "('c, 'r, 'v) channel" and view :: "'c \<Rightarrow> ('r, 'v) log"
  assumes new_panics: "n = 0 \<or> 2 ^ 63 \<le> n \<Longrightarrow> ch_new C n = None"
    and new_view: "ch_new C n = Some (c, r) \<Longrightarrow>
      \<exists>k \<ge> n. view c = \<lparr>lg_sent = [], lg_pos = [r \<mapsto> 0], lg_cap = k\<rparr>"
    and send_view: "view (snd (ch_send C c v)) = (view c)\<lparr>lg_sent := lg_sent (view c) @ [v]\<rparr>"
    and send_result: "fst (ch_send C c v) =
      (if dom (lg_pos (view c)) = {} then Inl v else Inr (card (dom (lg_pos (view c)))))"
    and subscribe_fresh: "lg_pos (view c) (fst (ch_subscribe C c)) = None"
    and subscribe_view: "view (snd (ch_subscribe C c)) = (view c)
      \<lparr>lg_pos := (lg_pos (view c))(fst (ch_subscribe C c) \<mapsto> length (lg_sent (view c)))\<rparr>"
    and recv_result: "fst (ch_recv C c r) = fst (log_recv (view c) r)"
    and recv_view: "view (snd (ch_recv C c r)) = snd (log_recv (view c) r)"
    and drop_view: "view (ch_drop C c r) = (view c)\<lparr>lg_pos := (lg_pos (view c))(r := None)\<rparr>"
    and receivers: "ch_receivers C c = card (dom (lg_pos (view c)))"

section \<open>The bus\<close>

text \<open>\<open>BroadcastBus::new\<close> drops the receiver that comes with the channel.\<close>

definition bus_new :: "('c, 'r, 'v) channel \<Rightarrow> nat \<Rightarrow> 'c panicking" where
  "bus_new C capacity = (case ch_new C capacity of None \<Rightarrow> None | Some (tx, rx) \<Rightarrow> Some (ch_drop C tx rx))"

definition bus_default :: "('c, 'r, 'v) channel \<Rightarrow> 'c panicking" where
  "bus_default C = bus_new C 1024"

definition subscriber_count :: "('c, 'r, 'v) channel \<Rightarrow> 'c \<Rightarrow> nat" where
  "subscriber_count C bus = ch_receivers C bus"

text \<open>\<open>let _ = self.tx.send(event)\<close>.\<close>

definition bus_publish :: "('c, 'r, 'v) channel \<Rightarrow> 'c \<Rightarrow> 'v \<Rightarrow> 'c" where
  "bus_publish C bus event = snd (ch_send C bus event)"

definition bus_subscribe :: "('c, 'r, 'v) channel \<Rightarrow> 'c \<Rightarrow> 'r \<times> 'c" where
  "bus_subscribe C bus = ch_subscribe C bus"

text \<open>
  One poll of \<open>BroadcastStream::new(rx).filter_map(Result::ok)\<close>: lag errors are skipped
  until there is an event or nothing to read. Looping for ever is the value \<open>None\<close>.
\<close>

partial_function (option) stream_next ::
    "('c, 'r, 'v) channel \<Rightarrow> 'c \<Rightarrow> 'r \<Rightarrow> ('v option \<times> 'c) option" where
  "stream_next C bus r =
     (case ch_recv C bus r of
        (Received v, bus') \<Rightarrow> Some (Some v, bus')
      | (Lagged n, bus') \<Rightarrow> stream_next C bus' r
      | (Pending, bus') \<Rightarrow> Some (None, bus'))"

section \<open>A channel in memory\<close>

text \<open>A channel that keeps everything, as an instance of the contract.\<close>

record 'v mem_channel =
  mc_sent :: "'v list"
  mc_pos :: "(nat, nat) alist"
  mc_cap :: nat

definition mem_view :: "'v mem_channel \<Rightarrow> (nat, 'v) log" where
  "mem_view c = \<lparr>lg_sent = mc_sent c, lg_pos = DAList.lookup (mc_pos c), lg_cap = mc_cap c\<rparr>"

definition mem_fresh :: "'v mem_channel \<Rightarrow> nat" where
  "mem_fresh c = fold (+) (map fst (DAList.impl_of (mc_pos c))) 1"

definition mem_count :: "'v mem_channel \<Rightarrow> nat" where
  "mem_count c = length (DAList.impl_of (mc_pos c))"

definition mem_recv :: "'v mem_channel \<Rightarrow> nat \<Rightarrow> 'v received \<times> 'v mem_channel" where
  "mem_recv c r =
     (case DAList.lookup (mc_pos c) r of
        None \<Rightarrow> (Pending, c)
      | Some p \<Rightarrow>
          let n = length (mc_sent c) in
          if n \<le> p then (Pending, c)
          else if mc_cap c < n - p
          then (Lagged (n - mc_cap c - p), c\<lparr>mc_pos := DAList.update r (n - mc_cap c) (mc_pos c)\<rparr>)
          else (Received (mc_sent c ! p), c\<lparr>mc_pos := DAList.update r (p + 1) (mc_pos c)\<rparr>))"

definition mem_channel :: "('v mem_channel, nat, 'v) channel" where
  "mem_channel =
     \<lparr>ch_new = (\<lambda>n. if n = 0 \<or> 2 ^ 63 \<le> n then None
        else Some (\<lparr>mc_sent = [], mc_pos = DAList.update 0 0 DAList.empty, mc_cap = n\<rparr>, 0)),
      ch_send = (\<lambda>c v. (if mem_count c = 0 then Inl v else Inr (mem_count c),
        c\<lparr>mc_sent := mc_sent c @ [v]\<rparr>)),
      ch_subscribe = (\<lambda>c. (mem_fresh c,
        c\<lparr>mc_pos := DAList.update (mem_fresh c) (length (mc_sent c)) (mc_pos c)\<rparr>)),
      ch_recv = mem_recv,
      ch_drop = (\<lambda>c r. c\<lparr>mc_pos := DAList.delete r (mc_pos c)\<rparr>),
      ch_receivers = mem_count\<rparr>"

lemma lookup_dom: "dom (DAList.lookup m) = fst ` set (DAList.impl_of m)"
  by (simp add: DAList.lookup.rep_eq dom_map_of_conv_image_fst)

lemma mem_count_card: "mem_count c = card (dom (DAList.lookup (mc_pos c)))"
  unfolding mem_count_def lookup_dom
  using impl_of_distinct by (metis distinct_card length_map list.set_map)

lemma fold_plus_above: "x \<in> set xs \<Longrightarrow> x < fold (+) xs (Suc a)"
  by (induction xs arbitrary: a) (auto simp: fold_plus_sum_list_rev)

lemma mem_fresh: "DAList.lookup (mc_pos c) (mem_fresh c) = None"
proof -
  have "x < mem_fresh c" if "x \<in> fst ` set (DAList.impl_of (mc_pos c))" for x
    using fold_plus_above [of x "map fst (DAList.impl_of (mc_pos c))" 0] that by (simp add: mem_fresh_def)
  then have "mem_fresh c \<notin> dom (DAList.lookup (mc_pos c))" by (auto simp: lookup_dom)
  then show ?thesis by auto
qed

interpretation mem: channel mem_channel mem_view
proof unfold_locales
  fix c :: "'v mem_channel" and r v
  show "fst (ch_send mem_channel c v) = (if dom (lg_pos (mem_view c)) = {} then Inl v
      else Inr (card (dom (lg_pos (mem_view c)))))"
    by (auto simp: mem_channel_def mem_view_def mem_count_card lookup_dom)
  show "ch_receivers mem_channel c = card (dom (lg_pos (mem_view c)))"
    by (simp add: mem_channel_def mem_view_def mem_count_card)
qed (auto simp: mem_channel_def mem_view_def mem_recv_def mem_fresh [unfolded DAList.lookup.rep_eq] log_recv_def Let_def
    DAList.lookup.rep_eq DAList.empty.rep_eq DAList.update.rep_eq DAList.delete.rep_eq update_conv' delete_conv'
    split: option.splits if_splits)

section \<open>Streams\<close>

text \<open>Where the next read of a receiver at \<open>p\<close> takes place.\<close>

definition next_read :: "('r, 'v) log \<Rightarrow> nat \<Rightarrow> nat" where
  "next_read L p = max p (length (lg_sent L) - lg_cap L)"

lemma log_recv_ok: "log_ok L \<Longrightarrow> log_ok (snd (log_recv L r))"
  by (auto simp: log_recv_def log_ok_def Let_def split: option.splits)

context channel begin

lemma publish_view: "view (bus_publish C bus v) = (view bus)\<lparr>lg_sent := lg_sent (view bus) @ [v]\<rparr>"
  by (simp add: bus_publish_def send_view)

lemma publish_ok: "log_ok (view bus) \<Longrightarrow> log_ok (view (bus_publish C bus v))"
  by (auto simp: publish_view log_ok_def le_SucI)

lemma subscribe_ok: "log_ok (view bus) \<Longrightarrow> log_ok (view (snd (bus_subscribe C bus)))"
  by (auto simp: bus_subscribe_def subscribe_view log_ok_def)

lemma drop_ok: "log_ok (view bus) \<Longrightarrow> log_ok (view (ch_drop C bus r))"
  by (auto simp: drop_view log_ok_def)

text \<open>A poll returns after at most one lag error: nothing, or the oldest event still held.\<close>

lemma stream_next_eq:
  assumes "log_ok (view bus)" and "lg_pos (view bus) r = Some p"
  shows "\<exists>bus'. stream_next C bus r =
      Some (if p < length (lg_sent (view bus)) then Some (lg_sent (view bus) ! next_read (view bus) p) else None, bus') \<and>
    view bus' = (if p < length (lg_sent (view bus))
      then (view bus)\<lparr>lg_pos := (lg_pos (view bus))(r \<mapsto> next_read (view bus) p + 1)\<rparr> else view bus)"
proof -
  let ?L = "view bus" and ?n = "length (lg_sent (view bus))"
  obtain x b1 where recv: "ch_recv C bus r = (x, b1)" by fastforce
  then have x: "x = fst (log_recv ?L r)" "view b1 = snd (log_recv ?L r)"
    using recv_result [of bus r] recv_view [of bus r] by simp_all
  show ?thesis
  proof (cases "?n - p \<le> lg_cap ?L")
    case True
    then have "next_read ?L p = p" by (simp add: next_read_def)
    with True show ?thesis
      using recv x assms(2) by (cases "p < ?n")
        (auto simp: stream_next.simps log_recv_def Let_def split: received.splits)
  next
    case False
    then have p: "p < ?n" by simp
    with False x assms(2) have x1: "x = Lagged (?n - lg_cap ?L - p)"
      "view b1 = ?L\<lparr>lg_pos := (lg_pos ?L)(r \<mapsto> ?n - lg_cap ?L)\<rparr>"
      by (simp_all add: log_recv_def Let_def)
    obtain y b2 where recv2: "ch_recv C b1 r = (y, b2)" by fastforce
    have "0 < lg_cap ?L" using assms(1) by (simp add: log_ok_def)
    then have "y = Received (lg_sent ?L ! (?n - lg_cap ?L))"
      "view b2 = ?L\<lparr>lg_pos := (lg_pos ?L)(r \<mapsto> ?n - lg_cap ?L + 1)\<rparr>"
      using recv2 recv_result [of b1 r] recv_view [of b1 r] False
      by (simp_all add: log_recv_def Let_def x1)
    moreover have "next_read ?L p = ?n - lg_cap ?L" using False by (simp add: next_read_def)
    ultimately show ?thesis
      using recv recv2 x1 p by (simp add: stream_next.simps [of C bus] stream_next.simps [of C b1])
  qed
qed

end

section \<open>Use of a bus\<close>

text \<open>What publishers and subscribers do, and what the subscriber \<open>r\<close> gets out of its polls.\<close>

datatype ('r, 'v) bus_op = Emit 'v | Join | Leave 'r | Poll 'r

fun bus_run ::
    "('c, 'r, 'v) channel \<Rightarrow> 'r \<Rightarrow> 'c \<Rightarrow> ('r, 'v) bus_op list \<Rightarrow> ('v list \<times> 'c) option"
where
  "bus_run C r bus [] = Some ([], bus)"
| "bus_run C r bus (Emit v # ops) = bus_run C r (bus_publish C bus v) ops"
| "bus_run C r bus (Join # ops) = bus_run C r (snd (bus_subscribe C bus)) ops"
| "bus_run C r bus (Leave q # ops) = bus_run C r (ch_drop C bus q) ops"
| "bus_run C r bus (Poll q # ops) =
     (case stream_next C bus q of
        None \<Rightarrow> None
      | Some (x, bus') \<Rightarrow>
          map_option (\<lambda>(xs, bus''). (if q = r then (case x of None \<Rightarrow> xs | Some v \<Rightarrow> v # xs) else xs, bus''))
            (bus_run C r bus' ops))"

fun emitted :: "('r, 'v) bus_op list \<Rightarrow> 'v list" where
  "emitted [] = []"
| "emitted (Emit v # ops) = v # emitted ops"
| "emitted (_ # ops) = emitted ops"

lemma emitted_append: "emitted (xs @ ys) = emitted xs @ emitted ys"
  by (induction xs rule: emitted.induct) simp_all

lemma emitted_polls: "emitted (ops @ replicate k (Poll r)) = emitted ops"
proof -
  have "emitted (replicate k (Poll r)) = []" by (induction k) simp_all
  then show ?thesis by (simp add: emitted_append)
qed

lemma subseq_suffix_eq: "subseq xs ys \<Longrightarrow> suffix ys xs \<Longrightarrow> xs = ys"
  by (simp add: subseq_order.antisym_conv suffix_imp_subseq)

text \<open>One read at \<open>q\<close>, of \<open>X\<close>, between the position \<open>p\<close> and the end \<open>e\<close>.\<close>

lemma read_extends:
  assumes "p \<le> q" and "q < e" and "e \<le> length X" and "q \<le> max p (F - cap)"
    and "subseq got (drop (q + 1) (take e X))"
    and "suffix (drop (max (q + 1) (F - cap)) (take e X)) got"
  shows "subseq (X ! q # got) (drop p (take e X)) \<and> suffix (drop (max p (F - cap)) (take e X)) (X ! q # got)"
proof -
  have split: "drop q (take e X) = X ! q # drop (q + 1) (take e X)"
    using assms(2,3) by (simp add: Cons_nth_drop_Suc [symmetric])
  have "drop q (take e X) = drop (q - p) (drop p (take e X))" using assms(1) by simp
  then have "suffix (drop q (take e X)) (drop p (take e X))" by (simp only: suffix_drop)
  then have sub: "subseq (X ! q # got) (drop p (take e X))"
    using assms(5) unfolding split
    by (metis subseq_Cons2 subseq_order.trans suffix_imp_subseq)
  show ?thesis
  proof (cases "q < F - cap")
    case True
    with assms(1,6) sub show ?thesis by (simp add: max_def suffix_ConsI split: if_splits)
  next
    case False
    with assms(4,1) have q: "max p (F - cap) = q" "max (q + 1) (F - cap) = q + 1" by auto
    with subseq_suffix_eq [OF assms(5)] assms(6) have "got = drop (q + 1) (take e X)" by simp
    with sub show ?thesis by (simp add: q split)
  qed
qed

text \<open>Where a use of the bus leaves a subscriber that stays.\<close>

definition delivered :: "('r, 'v) log \<Rightarrow> ('r, 'v) log \<Rightarrow> 'r \<Rightarrow> nat \<Rightarrow> 'v list \<Rightarrow> 'v list \<Rightarrow> bool" where
  "delivered L L' r p new got \<longleftrightarrow>
     log_ok L' \<and> lg_sent L' = lg_sent L @ new \<and> lg_cap L' = lg_cap L \<and>
     (\<exists>e. lg_pos L' r = Some e \<and> p \<le> e \<and> e \<le> length (lg_sent L') \<and>
        subseq got (drop p (take e (lg_sent L'))) \<and>
        suffix (drop (max p (length (lg_sent L') - lg_cap L')) (take e (lg_sent L'))) got)"

lemma delivered_read:
  assumes "log_ok L" and "p < length (lg_sent L)"
    and "delivered (L\<lparr>lg_pos := (lg_pos L)(r \<mapsto> next_read L p + 1)\<rparr>) L' r (next_read L p + 1) new got"
  shows "delivered L L' r p new (lg_sent L ! next_read L p # got)"
proof -
  let ?q = "next_read L p" and ?S' = "lg_sent L'"
  from assms(3) obtain e where e: "lg_pos L' r = Some e" "?q + 1 \<le> e" "e \<le> length ?S'"
      "subseq got (drop (?q + 1) (take e ?S'))"
      "suffix (drop (max (?q + 1) (length ?S' - lg_cap L')) (take e ?S')) got"
    and L': "?S' = lg_sent L @ new" "lg_cap L' = lg_cap L" "log_ok L'"
    by (auto simp: delivered_def)
  have q: "p \<le> ?q" "?q < length (lg_sent L)"
    using assms(1,2) by (auto simp: next_read_def log_ok_def)
  have "?q \<le> max p (length ?S' - lg_cap L')"
    by (auto simp: L' next_read_def max_def)
  moreover have "?S' ! ?q = lg_sent L ! ?q" using q by (simp add: L' nth_append)
  ultimately show ?thesis
    using read_extends [OF q(1) _ e(3) _ e(4,5)] e(1,2,3) q(1) L' by (auto simp: delivered_def)
qed

context channel begin

lemma stream_next_dead:
  assumes "lg_pos (view bus) q = None"
  shows "\<exists>bus'. stream_next C bus q = Some (None, bus') \<and> view bus' = view bus"
proof -
  obtain x b1 where recv: "ch_recv C bus q = (x, b1)" by fastforce
  then show ?thesis
    using assms recv_result [of bus q] recv_view [of bus q]
    by (simp add: stream_next.simps log_recv_def)
qed

text \<open>A poll always returns, and moves no other receiver.\<close>

lemma stream_next_frame:
  assumes "log_ok (view bus)"
  shows "\<exists>x bus'. stream_next C bus q = Some (x, bus') \<and> log_ok (view bus') \<and>
    lg_sent (view bus') = lg_sent (view bus) \<and> lg_cap (view bus') = lg_cap (view bus) \<and>
    (\<forall>r. r \<noteq> q \<longrightarrow> lg_pos (view bus') r = lg_pos (view bus) r)"
proof (cases "lg_pos (view bus) q")
  case None
  then show ?thesis using stream_next_dead [OF None] assms by fastforce
next
  case (Some p)
  from stream_next_eq [OF assms Some] assms show ?thesis
    by (fastforce simp: log_ok_def next_read_def split: if_splits)
qed

lemma bus_run_delivers:
  assumes "log_ok (view bus)" and "lg_pos (view bus) r = Some p" and "Leave r \<notin> set ops"
  shows "\<exists>got bus'. bus_run C r bus ops = Some (got, bus') \<and>
    delivered (view bus) (view bus') r p (emitted ops) got"
  using assms
proof (induction ops arbitrary: bus p)
  case Nil
  then show ?case by (auto simp: delivered_def log_ok_def)
next
  case (Cons op ops)
  have p: "p \<le> length (lg_sent (view bus))" using Cons.prems(1,2) by (simp add: log_ok_def)
  show ?case
  proof (cases op)
    case (Emit v)
    then show ?thesis
      using Cons.IH [of "bus_publish C bus v" p] Cons.prems publish_ok
      by (auto simp: publish_view delivered_def)
  next
    case Join
    have "fst (ch_subscribe C bus) \<noteq> r" using subscribe_fresh [of bus] Cons.prems(2) by auto
    then show ?thesis
      using Join Cons.IH [of "snd (bus_subscribe C bus)" p] Cons.prems subscribe_ok [of bus]
      by (auto simp: bus_subscribe_def subscribe_view delivered_def)
  next
    case (Leave q)
    then show ?thesis
      using Cons.IH [of "ch_drop C bus q" p] Cons.prems drop_ok [of bus q]
      by (auto simp: drop_view delivered_def)
  next
    case (Poll q)
    show ?thesis
    proof (cases "q = r")
      case False
      then obtain x b where b: "stream_next C bus q = Some (x, b)" "log_ok (view b)"
        "lg_sent (view b) = lg_sent (view bus)" "lg_cap (view b) = lg_cap (view bus)"
        "lg_pos (view b) r = Some p"
        using stream_next_frame [OF Cons.prems(1), of q] False Cons.prems(2) by auto
      then show ?thesis
        using Poll False Cons.IH [of b p] Cons.prems(3) by (auto simp: delivered_def)
    next
      case True
      note eq = stream_next_eq [OF Cons.prems(1,2)]
      show ?thesis
      proof (cases "p < length (lg_sent (view bus))")
        case False
        with eq obtain b where "stream_next C bus r = Some (None, b)" "view b = view bus" by auto
        then show ?thesis
          using Poll True Cons.IH [of b p] Cons.prems by auto
      next
        case less: True
        let ?q = "next_read (view bus) p" and ?S = "lg_sent (view bus)"
        from eq less obtain b where b: "stream_next C bus r = Some (Some (?S ! ?q), b)"
          "view b = (view bus)\<lparr>lg_pos := (lg_pos (view bus))(r \<mapsto> ?q + 1)\<rparr>" by auto
        have q: "p \<le> ?q" "?q < length ?S"
          using less Cons.prems(1) by (auto simp: next_read_def log_ok_def)
        have "log_ok (view b)" "lg_pos (view b) r = Some (?q + 1)" "Leave r \<notin> set ops"
          using Cons.prems(1,3) q by (auto simp: b(2) log_ok_def)
        from Cons.IH [OF this] obtain got bus' where run: "bus_run C r b ops = Some (got, bus')"
          and del: "delivered (view b) (view bus') r (?q + 1) (emitted ops) got" by blast
        have "delivered (view bus) (view bus') r p (emitted ops) (?S ! ?q # got)"
          using delivered_read [OF _ less del [unfolded b(2)]] Cons.prems(1) by simp
        then show ?thesis using Poll True b(1) run by auto
      qed
    qed
  qed
qed

lemma bus_run_ok:
  assumes "log_ok (view bus)"
  shows "\<exists>xs bus'. bus_run C r bus ops = Some (xs, bus') \<and> log_ok (view bus') \<and>
    lg_cap (view bus') = lg_cap (view bus)"
  using assms
proof (induction ops arbitrary: bus)
  case Nil
  then show ?case by simp
next
  case (Cons op ops)
  show ?case
  proof (cases op)
    case (Emit v)
    with Cons.IH [OF publish_ok [OF Cons.prems]] show ?thesis by (simp add: publish_view)
  next
    case Join
    with Cons.IH [OF subscribe_ok [OF Cons.prems]] show ?thesis
      by (simp add: bus_subscribe_def subscribe_view)
  next
    case (Leave q)
    with Cons.IH [OF drop_ok [OF Cons.prems]] show ?thesis by (simp add: drop_view)
  next
    case (Poll q)
    from stream_next_frame [OF Cons.prems, of q] obtain x b where b: "stream_next C bus q = Some (x, b)"
      "log_ok (view b)" "lg_cap (view b) = lg_cap (view bus)" by auto
    from Cons.IH [OF b(2)] b Poll show ?thesis by (cases "q = r") auto
  qed
qed

text \<open>Enough polls in a row reach the end of the log.\<close>

lemma drain_reaches_end:
  assumes "log_ok (view bus)" and "lg_pos (view bus) r = Some p" and "length (lg_sent (view bus)) \<le> p + k"
    and "bus_run C r bus (replicate k (Poll r)) = Some (got, bus')"
  shows "lg_pos (view bus') r = Some (length (lg_sent (view bus')))"
  using assms
proof (induction k arbitrary: bus p got)
  case 0
  then show ?case by (fastforce simp: log_ok_def intro: order.antisym)
next
  case (Suc k)
  from stream_next_eq [OF Suc.prems(1,2)] obtain x b where b: "stream_next C bus r = Some (x, b)"
    "view b = (if p < length (lg_sent (view bus))
      then (view bus)\<lparr>lg_pos := (lg_pos (view bus))(r \<mapsto> next_read (view bus) p + 1)\<rparr> else view bus)"
    by auto
  obtain got' where run: "bus_run C r b (replicate k (Poll r)) = Some (got', bus')"
    using Suc.prems(4) b(1) by (auto split: option.splits)
  show ?case
  proof (cases "p < length (lg_sent (view bus))")
    case True
    with Suc.prems show ?thesis
      by (intro Suc.IH [OF _ _ _ run, of "next_read (view bus) p + 1"])
        (auto simp: b(2) log_ok_def next_read_def)
  next
    case False
    with Suc.prems show ?thesis by (intro Suc.IH [OF _ _ _ run, of p]) (auto simp: b(2))
  qed
qed

lemma bus_new_ok:
  assumes "bus_new C capacity = Some bus"
  shows "log_ok (view bus) \<and> capacity \<le> lg_cap (view bus) \<and> lg_sent (view bus) = [] \<and>
    subscriber_count C bus = 0"
proof -
  from assms obtain c r where new: "ch_new C capacity = Some (c, r)" and bus: "bus = ch_drop C c r"
    by (auto simp: bus_new_def split: option.splits)
  moreover have "capacity \<noteq> 0" using new new_panics [of capacity] by (cases "capacity = 0") auto
  ultimately show ?thesis
    using new_view [OF new] by (auto simp: drop_view log_ok_def subscriber_count_def receivers)
qed

lemma bus_run_append:
  "bus_run C r bus (ops @ ops') =
     (case bus_run C r bus ops of
        None \<Rightarrow> None
      | Some (xs, bus') \<Rightarrow> map_option (\<lambda>(ys, bus''). (xs @ ys, bus'')) (bus_run C r bus' ops'))"
proof (induction ops arbitrary: bus)
  case (Cons op ops)
  show ?case
  proof (cases op)
    case (Poll q)
    then show ?thesis
      by (auto simp: Cons.IH map_option_case split: option.splits)
  qed (simp_all add: Cons.IH)
qed (simp add: option.map_id flip: id_def)

text \<open>What a subscriber that has just joined gets.\<close>

lemma joined_gets:
  assumes "log_ok (view bus)" and "lg_pos (view bus) r = Some (length (lg_sent (view bus)))"
    and "Leave r \<notin> set ops"
  shows "\<exists>got bus'. bus_run C r bus ops = Some (got, bus') \<and> subseq got (emitted ops) \<and>
    (length (emitted ops) \<le> lg_cap (view bus) \<longrightarrow> prefix got (emitted ops))"
proof -
  let ?S = "lg_sent (view bus)"
  from bus_run_delivers [OF assms] obtain got b where run: "bus_run C r bus ops = Some (got, b)"
    and del: "delivered (view bus) (view b) r (length ?S) (emitted ops) got" by blast
  then obtain e where "length ?S \<le> e"
    and sub: "subseq got (drop (length ?S) (take e (?S @ emitted ops)))"
    and suf: "suffix (drop (max (length ?S) (length (?S @ emitted ops) - lg_cap (view bus)))
      (take e (?S @ emitted ops))) got"
    by (auto simp: delivered_def)
  have eq: "drop (length ?S) (take e (?S @ emitted ops)) = take (e - length ?S) (emitted ops)"
    using \<open>length ?S \<le> e\<close> by simp
  have "subseq got (emitted ops)"
    using sub unfolding eq by (metis prefix_imp_subseq subseq_order.trans take_is_prefix)
  moreover have "prefix got (emitted ops)" if "length (emitted ops) \<le> lg_cap (view bus)"
  proof -
    have "max (length ?S) (length (?S @ emitted ops) - lg_cap (view bus)) = length ?S"
      using that by simp
    with suf have "got = take (e - length ?S) (emitted ops)"
      using subseq_suffix_eq [OF sub] by (simp only: eq)
    then show ?thesis by (simp add: take_is_prefix)
  qed
  ultimately show ?thesis using run by blast
qed

text \<open>After enough polls in a row the last events, as many as the capacity, have arrived.\<close>

lemma drained_suffix:
  assumes "log_ok (view bus)" and "lg_pos (view bus) r = Some (length (lg_sent (view bus)))"
    and "Leave r \<notin> set ops" and "length (emitted ops) \<le> k"
  shows "\<exists>got bus'. bus_run C r bus (ops @ replicate k (Poll r)) = Some (got, bus') \<and>
    suffix (drop (length (emitted ops) - lg_cap (view bus)) (emitted ops)) got"
proof -
  from bus_run_delivers [OF assms(1-3)] obtain got b where
    run: "bus_run C r bus ops = Some (got, b)" "delivered (view bus) (view b) r
      (length (lg_sent (view bus))) (emitted ops) got" by blast
  then obtain e where e: "lg_pos (view b) r = Some e" "length (lg_sent (view bus)) \<le> e"
    and b: "log_ok (view b)" "lg_sent (view b) = lg_sent (view bus) @ emitted ops"
    by (auto simp: delivered_def)
  have "Leave r \<notin> set (ops @ replicate k (Poll r))" using assms(3) by auto
  from bus_run_delivers [OF assms(1,2) this] obtain got' b' where
    run': "bus_run C r bus (ops @ replicate k (Poll r)) = Some (got', b')"
    and del: "delivered (view bus) (view b') r (length (lg_sent (view bus))) (emitted ops) got'"
    by (auto simp: emitted_polls)
  then obtain ys where "bus_run C r b (replicate k (Poll r)) = Some (ys, b')"
    using run(1) by (auto simp: bus_run_append)
  from drain_reaches_end [OF b(1) e(1) _ this] have "lg_pos (view b') r = Some (length (lg_sent (view b')))"
    using e(2) b(2) assms(4) by simp
  with del have "suffix (drop (length (emitted ops) - lg_cap (view bus)) (emitted ops)) got'"
    by (auto simp: delivered_def max_def split: if_splits)
  with run' show ?thesis by blast
qed

end

section \<open>Properties\<close>

text \<open>
  C21 Delivery: over any channel that keeps the contract and after any earlier use of the
  bus, whatever publishers and other subscribers do, every poll of a subscriber returns,
  and it gets events published after it joined, in order and none twice; as long as no
  more are published than the capacity it misses none; and once it has polled as often as
  events were published, it has got the most recent ones, as many as the capacity.
\<close>

theorem subscriber_gets_events:
  assumes "channel C view" and "bus_new C capacity = Some bus0"
    and "bus_run C q bus0 before = Some (xs, bus)" and "bus_subscribe C bus = (r, bus1)"
    and "Leave r \<notin> set ops" and "length (emitted ops) \<le> k"
  shows "\<exists>got bus2 got' bus3. bus_run C r bus1 ops = Some (got, bus2) \<and> subseq got (emitted ops) \<and>
    (length (emitted ops) \<le> capacity \<longrightarrow> prefix got (emitted ops)) \<and>
    bus_run C r bus1 (ops @ replicate k (Poll r)) = Some (got', bus3) \<and>
    suffix (drop (length (emitted ops) - capacity) (emitted ops)) got'"
proof -
  note ch = assms(1)
  have "log_ok (view bus) \<and> lg_cap (view bus) = lg_cap (view bus0)"
    using channel.bus_run_ok [OF ch, of bus0 q before] channel.bus_new_ok [OF ch assms(2)] assms(3) by auto
  then have ok: "log_ok (view bus1)" and cap: "capacity \<le> lg_cap (view bus1)"
    and pos: "lg_pos (view bus1) r = Some (length (lg_sent (view bus1)))"
    using channel.bus_new_ok [OF ch assms(2)] channel.subscribe_ok [OF ch, of bus] assms(4)
      channel.subscribe_view [OF ch, of bus]
    by (auto simp: bus_subscribe_def dest: sym)
  have suf: "suffix (drop (length (emitted ops) - capacity) (emitted ops))
      (drop (length (emitted ops) - lg_cap (view bus1)) (emitted ops))"
    using cap suffix_drop [of "lg_cap (view bus1) - capacity"
        "drop (length (emitted ops) - lg_cap (view bus1)) (emitted ops)"]
    by (cases "lg_cap (view bus1) \<le> length (emitted ops)") (auto simp: suffix_drop)
  show ?thesis
    using channel.joined_gets [OF ch ok pos assms(5)] channel.drained_suffix [OF ch ok pos assms(5,6)]
      cap suf by (meson order.trans suffix_order.trans)
qed

text \<open>A bus of capacity two with one subscriber.\<close>

definition demo_bus :: "'v mem_channel" where
  "demo_bus = \<lparr>mc_sent = [], mc_pos = DAList.empty, mc_cap = 2\<rparr>"

definition demo_joined :: "'v mem_channel" where
  "demo_joined = \<lparr>mc_sent = [], mc_pos = DAList.update 1 0 DAList.empty, mc_cap = 2\<rparr>"

lemma delete_update_empty: "DAList.delete k (DAList.update k v DAList.empty) = DAList.empty"
  by (intro alist.impl_of_inject [THEN iffD1]) (simp add: DAList.delete.rep_eq DAList.update.rep_eq
      DAList.empty.rep_eq AList.delete_eq)

lemma demo_bus_new: "bus_new mem_channel 2 = Some demo_bus"
  by (simp add: bus_new_def mem_channel_def demo_bus_def delete_update_empty)

lemma demo_bus_subscribe: "bus_subscribe mem_channel demo_bus = (1, demo_joined)"
  by (simp add: bus_subscribe_def mem_channel_def demo_bus_def demo_joined_def mem_fresh_def
      DAList.empty.rep_eq)

theorem subscriber_gets_events_witness:
  "\<exists>got bus. bus_run mem_channel 1 demo_joined
      ([Emit 10, Emit 11, Emit 12] @ replicate 3 (Poll 1)) = Some (got, bus) \<and>
    suffix [11, 12 :: nat] got"
  using subscriber_gets_events [OF mem.channel_axioms demo_bus_new _ demo_bus_subscribe,
      of 1 "[]" "[]" "[Emit 10, Emit 11, Emit 12]" 3]
  by auto

end
