(* ===== verification/Node.thy ===== *)
theory Node
  imports Http_App Node_System Event_Bus
begin

text \<open>
  The composition root, \<open>node/src/lib.rs\<close>, with the configurations of \<open>node/src/config.rs\<close>
  and \<open>core/src/config.rs\<close>: the engine over the DashMap adapters and the broadcast bus, the
  keeper tasks of \<open>node/src/keeper.rs\<close> with their timers, and \<open>run\<close> from the start to the
  shutdown.
\<close>

section \<open>Configuration\<close>

record engine_config =
  ec_poll_interval :: duration
  ec_scan_interval :: duration

definition from_secs :: "nat \<Rightarrow> duration" where
  "from_secs s = s * 10 ^ 9"

definition engine_config_default :: engine_config where
  "engine_config_default = \<lparr>ec_poll_interval = from_secs 1, ec_scan_interval = from_secs 2\<rparr>"

record node_config =
  nc_bind :: string
  nc_poll_ms :: u64
  nc_scan_ms :: u64
  nc_request_timeout_ms :: u64
  nc_bus_capacity :: nat

definition node_config_default :: node_config where
  "node_config_default =
     \<lparr>nc_bind = ''0.0.0.0:8080'', nc_poll_ms = 1000, nc_scan_ms = 2000,
      nc_request_timeout_ms = 5000, nc_bus_capacity = 1024\<rparr>"

definition poll_interval :: "node_config \<Rightarrow> duration" where
  "poll_interval c = from_millis (unat (nc_poll_ms c))"

definition scan_interval :: "node_config \<Rightarrow> duration" where
  "scan_interval c = from_millis (unat (nc_scan_ms c))"

definition request_timeout :: "node_config \<Rightarrow> duration" where
  "request_timeout c = from_millis (unat (nc_request_timeout_ms c))"

section \<open>Assembly\<close>

text \<open>
  The ports, the initial state and the configuration of the engine, and the bus. A capacity
  that the channel does not take panics.
\<close>

definition assemble ::
    "('c, 'r, attestation_event) channel \<Rightarrow>
     ('i, 32 bytes, identity_view) dashmap \<Rightarrow> ('j, 32 bytes, issuer_view) dashmap \<Rightarrow>
     ('t, 32 bytes, digest list) dashmap \<Rightarrow> node_config \<Rightarrow>
     (('i, 'j, 't) ports \<times> ('i, 'j, 't) engine \<times> engine_config \<times> 'c) panicking" where
  "assemble C Di Dj Dt cfg =
     (case bus_new C (nc_bus_capacity cfg) of
        None \<Rightarrow> None
      | Some bus \<Rightarrow> Some
          (node_ports Di Dj Dt, empty_engine (dm_new Di) (dm_new Dj) (dm_new Dt),
           \<lparr>ec_poll_interval = poll_interval cfg, ec_scan_interval = scan_interval cfg\<rparr>, bus))"

section \<open>Keeper tasks\<close>

text \<open>
  \<open>tokio::time::interval\<close> is a parameter: it panics on a period of zero. It does so inside the
  spawned task, so only that keeper ends, and nobody waits for its handle.
\<close>

definition spawn_keepers ::
    "(duration \<Rightarrow> unit panicking) \<Rightarrow> duration \<Rightarrow> duration \<Rightarrow>
     ('i, 'j, 't, 'f) node_state \<Rightarrow> ('i, 'j, 't, 'f) node_state" where
  "spawn_keepers interval poll_every scan_every s =
     s\<lparr>ns_poller := (case interval poll_every of None \<Rightarrow> PollDead | Some _ \<Rightarrow> PollIdle),
       ns_scanner := (case interval scan_every of None \<Rightarrow> ScanDead | Some _ \<Rightarrow> ScanIdle)\<rparr>"

definition abort_keepers :: "('i, 'j, 't, 'f) node_state \<Rightarrow> ('i, 'j, 't, 'f) node_state" where
  "abort_keepers s = s\<lparr>ns_poller := PollDead, ns_scanner := ScanDead\<rparr>"

text \<open>A keeper by itself: one cycle per tick.\<close>

definition poller_loop ::
    "(duration \<Rightarrow> unit panicking) \<Rightarrow> ('i, 'j, 't) ports \<Rightarrow> duration \<Rightarrow> source list \<Rightarrow> ('i, 'j, 't) engine \<times> 'f metrics \<Rightarrow>
     (('i, 'j, 't) engine \<times> 'f metrics) panicking" where
  "poller_loop interval P period ticks EM = map_option (\<lambda>_. fold (poll_cycle P) ticks EM) (interval period)"

section \<open>Running\<close>

text \<open>
  What \<open>run\<close> meets: the results of installing the metrics recorder, of binding and of the
  server, what becomes of the two signals, and the actions of all parties with their times; the
  keepers run while the listener binds. The keepers poll the simulator.
\<close>

record environment =
  en_recorder :: "string + unit"
  en_starting :: "action list"
  en_bind :: "string \<Rightarrow> string + unit"
  en_unix :: bool
  en_sigint :: "string signal"
  en_sigterm :: "string signal"
  en_actions :: "(duration \<times> action) list"
  en_serve :: "string + unit"

text \<open>\<open>.install_recorder().expect(..)\<close>.\<close>

definition install_metrics :: "string + unit \<Rightarrow> unit panicking" where
  "install_metrics installed = (case installed of Inl e \<Rightarrow> None | Inr h \<Rightarrow> Some h)"

fun of_node :: "action \<Rightarrow> action" where
  "of_node (Keep src) = Keep sim_source"
| "of_node act = act"

fun arrival :: "action \<Rightarrow> bool" where
  "arrival (Arrive r) \<longleftrightarrow> True"
| "arrival act \<longleftrightarrow> False"

text \<open>
  \<open>axum::serve(..).with_graceful_shutdown(..)\<close>: from the signal on no request is accepted;
  the server waits for those accepted before, and completes when each of them has been answered
  or dropped. (An upgraded WebSocket is no longer a request of the server.) The flag tells
  whether it has completed; what would happen later is not looked at then.
\<close>

fun task_done :: "task option \<Rightarrow> bool" where
  "task_done None \<longleftrightarrow> True"
| "task_done (Some (Finished r)) \<longleftrightarrow> True"
| "task_done (Some _) \<longleftrightarrow> False"

definition drained :: "('i, 'j, 't, 'f) node_state \<Rightarrow> bool" where
  "drained s \<longleftrightarrow> list_all task_done (ns_tasks s)"

fun signalled :: "duration option \<Rightarrow> duration \<Rightarrow> bool" where
  "signalled None t \<longleftrightarrow> False"
| "signalled (Some d) t \<longleftrightarrow> d \<le> t"

fun serve_until ::
    "'h keccak \<Rightarrow> arith_mode \<Rightarrow> (u64 \<Rightarrow> 'f) \<Rightarrow> ('i, 'j, 't) ports \<Rightarrow> duration option \<Rightarrow>
     (duration \<times> action) list \<Rightarrow> ('i, 'j, 't, 'f) node_state \<Rightarrow> bool \<times> ('i, 'j, 't, 'f) node_state"
where
  "serve_until K m to_f64 P shutdown [] s = (shutdown \<noteq> None \<and> drained s, s)"
| "serve_until K m to_f64 P shutdown ((t, act) # acts) s =
     (if signalled shutdown t \<and> drained s then (True, s)
      else if signalled shutdown t \<and> arrival act then serve_until K m to_f64 P shutdown acts s
      else serve_until K m to_f64 P shutdown acts (node_step K m to_f64 P (of_node act) s))"

text \<open>\<open>Serving\<close>: the server has not completed with all of these actions.\<close>

datatype run_result = Panicked | Failed string | Serving | Stopped

definition run ::
    "('c, 'r, attestation_event) channel \<Rightarrow>
     ('i, 32 bytes, identity_view) dashmap \<Rightarrow> ('j, 32 bytes, issuer_view) dashmap \<Rightarrow>
     ('t, 32 bytes, digest list) dashmap \<Rightarrow> (duration \<Rightarrow> unit panicking) \<Rightarrow>
     'h keccak \<Rightarrow> arith_mode \<Rightarrow> (u64 \<Rightarrow> 'f) \<Rightarrow>
     node_config \<Rightarrow> environment \<Rightarrow> run_result \<times> (app \<times> ('i, 'j, 't, 'f) node_state) option" where
  "run C Di Dj Dt interval K m to_f64 cfg env =
     (case install_metrics (en_recorder env) of
        None \<Rightarrow> (Panicked, None)
      | Some _ \<Rightarrow>
     (case assemble C Di Dj Dt cfg of
        None \<Rightarrow> (Panicked, None)
      | Some (P, E, c, bus) \<Rightarrow>
          (let s = spawn_keepers interval (poll_interval cfg) (scan_interval cfg) (node_start E);
               a = build_app (request_timeout cfg);
               s = node_run K m to_f64 P (map of_node (filter (Not \<circ> arrival) (en_starting env))) s
           in case en_bind env (nc_bind cfg) of
                Inl e \<Rightarrow> (Failed e, Some (a, s))
              | Inr _ \<Rightarrow>
                  (let shutdown = shutdown_signal (en_unix env) (en_sigint env) (en_sigterm env);
                       (completed, s) = serve_until K m to_f64 P shutdown (en_actions env) s
                   in case en_serve env of
                        Inl e \<Rightarrow> (Failed e, Some (a, s))
                      | Inr _ \<Rightarrow>
                          if completed then (Stopped, Some (a, abort_keepers s))
                          else (Serving, Some (a, s))))))"

section \<open>Dead keepers\<close>

lemma node_run_append: "node_run K m to_f64 P (xs @ ys) s = node_run K m to_f64 P ys (node_run K m to_f64 P xs s)"
  by (simp add: node_run_def)

text \<open>A dead poller stays dead and counts nothing, whatever else goes on.\<close>

definition poller_dead :: "('i, 'j, 't, 'f) node_state \<Rightarrow> bool" where
  "poller_dead s \<longleftrightarrow> ns_poller s = PollDead \<and> mx_poll_total (ns_metrics s) = 0 \<and> mx_poll_errors (ns_metrics s) = 0"

lemma scanner_counts:
  "scanner_step m to_f64 P c E M = (c', M') \<Longrightarrow>
     mx_poll_total M' = mx_poll_total M \<and> mx_poll_errors M' = mx_poll_errors M"
  by (cases "(m, to_f64, P, c, E, M)" rule: scanner_step.cases)
    (auto simp: scan_failed_def split: sum.splits option.splits)

lemma poller_dead_run: "poller_dead s \<Longrightarrow> poller_dead (node_run K m to_f64 P acts s)"
proof (induction acts arbitrary: s)
  case (Cons act acts)
  have "poller_dead (node_step K m to_f64 P act s)"
    using Cons.prems scanner_counts [of m to_f64 P "ns_scanner s" "ns_engine s" "ns_metrics s"]
    by (cases act) (auto simp: poller_dead_def split: option.splits task.splits prod.splits)
  with Cons.IH show ?case by (simp add: node_run_def)
qed (simp add: node_run_def)

lemma spawn_dead: "interval 0 = None \<Longrightarrow> nc_poll_ms cfg = 0 \<Longrightarrow> poller_dead (spawn_keepers interval (poll_interval cfg) d (node_start E))"
  by (simp add: poller_dead_def spawn_keepers_def poll_interval_def from_millis_def
      node_start_def metrics_start_def)

lemma dead_aborted: "poller_dead s \<Longrightarrow> poller_dead (if b then abort_keepers s else s)"
  by (simp add: poller_dead_def abort_keepers_def)

section \<open>Facts\<close>

text \<open>
  The assembled node: over any maps that keep the contract of \<open>DashMap\<close>, every sequence
  of requests gives the replies, contents, events and panics of the abstract service
  started empty; and with the default configuration the engine has its own default
  configuration.
\<close>

lemma assemble_Some:
  "assemble C Di Dj Dt cfg = Some (P, E, c, bus) \<longleftrightarrow>
     bus_new C (nc_bus_capacity cfg) = Some bus \<and> P = node_ports Di Dj Dt \<and>
     E = empty_engine (dm_new Di) (dm_new Dj) (dm_new Dt) \<and>
     c = \<lparr>ec_poll_interval = poll_interval cfg, ec_scan_interval = scan_interval cfg\<rparr>"
  by (auto simp: assemble_def split: option.splits)

lemma node_refines_service:
  assumes "identity_map Di" and "issuer_map Dj" and "leaves_map Dt"
    and "assemble C Di Dj Dt cfg = Some (P, E, c, bus)"
  shows "map_option (\<lambda>(replies, E'). (replies, service_of P E')) (run_requests K m P E rs) =
      serve_all K m empty_service rs \<and>
    (cfg = node_config_default \<longrightarrow> c = engine_config_default)"
proof -
  note ports = node_engine_ports [OF assms(1-3)]
  have "map_option (\<lambda>(replies, E'). (replies, service_of P E')) (run_requests K m P E rs) =
      serve_all K m empty_service rs"
    using engine_ports.runs_refine [OF ports engine_ports.empty_ok [OF ports], of K m rs] assms(4)
    by (simp add: assemble_Some engine_ports.service_of_empty [OF ports])
  moreover have "cfg = node_config_default \<longrightarrow> c = engine_config_default"
    using assms(4)
    by (auto simp: assemble_Some node_config_default_def engine_config_default_def poll_interval_def
        scan_interval_def from_millis_def from_secs_def)
  ultimately show ?thesis by blast
qed

lemma assemble_None: "assemble C Di Dj Dt cfg = None \<longleftrightarrow> bus_new C (nc_bus_capacity cfg) = None"
  by (simp add: assemble_def split: option.splits)

text \<open>A poller by itself, over ticks that all find the source: every tick is counted.\<close>

lemma poller_loop_counts:
  assumes "poller_loop interval P period ticks EM = Some (E', M')"
  shows "mx_poll_total M' + mx_poll_errors M' =
    mx_poll_total (snd EM) + mx_poll_errors (snd EM) + length ticks"
proof -
  have "mx_poll_total (snd (fold (poll_cycle P) ticks EM)) + mx_poll_errors (snd (fold (poll_cycle P) ticks EM)) =
      mx_poll_total (snd EM) + mx_poll_errors (snd EM) + length ticks"
    by (induction ticks arbitrary: EM) (simp_all add: poll_cycles_counted)
  moreover have "fold (poll_cycle P) ticks EM = (E', M')"
    using assms by (auto simp: poller_loop_def)
  ultimately show ?thesis by simp
qed

text \<open>The server steps like the node, on some of the actions.\<close>

lemma serve_run: "\<exists>acts'. snd (serve_until K m to_f64 P sd acts s) = node_run K m to_f64 P (map of_node acts') s"
proof (induction K m to_f64 P sd acts s rule: serve_until.induct)
  case (1 K m to_f64 P sd s)
  then show ?case by (intro exI [of _ "[]"]) (simp add: node_run_def)
next
  case (2 K m to_f64 P sd t act acts s)
  consider "signalled sd t \<and> drained s" | "signalled sd t \<and> arrival act \<and> \<not> drained s"
    | "\<not> (signalled sd t \<and> drained s)" "\<not> (signalled sd t \<and> arrival act)" by blast
  then show ?case
  proof cases
    case 1
    then show ?thesis by (intro exI [of _ "[]"]) (simp add: node_run_def)
  next
    case 2
    with "2.IH"(1) show ?thesis by simp
  next
    case 3
    with "2.IH"(2) obtain acts' where "snd (serve_until K m to_f64 P sd acts (node_step K m to_f64 P (of_node act) s)) =
        node_run K m to_f64 P (map of_node acts') (node_step K m to_f64 P (of_node act) s)" by blast
    with 3 show ?thesis by (intro exI [of _ "act # acts'"]) (auto simp: node_run_def)
  qed
qed





lemma of_node_simps [simp]:
  "of_node act = Run k \<longleftrightarrow> act = Run k" "of_node act = Drop k \<longleftrightarrow> act = Drop k"
  "arrival (of_node act) \<longleftrightarrow> arrival act"
  by (cases act; simp)+




lemma node_run_arrivals:
  "length (ns_tasks (node_run K m to_f64 P acts s)) = length (ns_tasks s) + length (filter arrival acts)"
proof (induction acts arbitrary: s)
  case (Cons act acts)
  have "length (ns_tasks (node_step K m to_f64 P act s)) =
      length (ns_tasks s) + (if arrival act then 1 else 0)"
    by (cases act) (auto simp: Let_def split: option.split task.split prod.split)
  with Cons.IH [of "node_step K m to_f64 P act s"] show ?case by (simp add: node_run_def)
qed (simp add: node_run_def)


lemma run_Some:
  assumes "run C Di Dj Dt interval K m to_f64 cfg env = (r, Some (a, s))"
  shows "\<exists>acts. let s' = node_run K m to_f64 (node_ports Di Dj Dt) (map of_node acts)
      (spawn_keepers interval (poll_interval cfg) (scan_interval cfg)
        (node_start (empty_engine (dm_new Di) (dm_new Dj) (dm_new Dt))))
    in s = (if r = Stopped then abort_keepers s' else s') \<and> a = build_app (request_timeout cfg)"
proof -
  let ?init = "spawn_keepers interval (poll_interval cfg) (scan_interval cfg)
      (node_start (empty_engine (dm_new Di) (dm_new Dj) (dm_new Dt)))"
  let ?pre = "filter (Not \<circ> arrival) (en_starting env)"
  let ?sd = "shutdown_signal (en_unix env) (en_sigint env) (en_sigterm env)"
  let ?run = "\<lambda>acts. node_run K m to_f64 (node_ports Di Dj Dt) (map of_node acts) ?init"
  obtain completed s' where serve: "serve_until K m to_f64 (node_ports Di Dj Dt) ?sd (en_actions env) (?run ?pre) = (completed, s')"
    by fastforce
  obtain post where "s' = node_run K m to_f64 (node_ports Di Dj Dt) (map of_node post) (?run ?pre)"
    using serve_run [of K m to_f64 "node_ports Di Dj Dt" ?sd "en_actions env" "?run ?pre"] serve by auto
  then have s': "s' = ?run (?pre @ post)" by (simp add: node_run_append)
  from assms have "(s = ?run ?pre \<and> r \<noteq> Stopped \<or> s = s' \<and> r \<noteq> Stopped \<or>
      s = abort_keepers s' \<and> r = Stopped) \<and> a = build_app (request_timeout cfg)"
    unfolding run_def assemble_def Let_def
    by (auto split: option.splits sum.splits if_splits simp: Let_def serve)
  then show ?thesis unfolding Let_def s' by metis
qed

section \<open>Properties\<close>


text \<open>The timer as documented; a default node in an environment where nothing goes wrong and nothing happens.\<close>

definition tokio_interval :: "duration \<Rightarrow> unit panicking" where
  "tokio_interval period = (if period = 0 then None else Some ())"

definition calm :: environment where
  "calm = \<lparr>en_recorder = Inr (), en_starting = [], en_bind = (\<lambda>_. Inr ()), en_unix = True,
     en_sigint = Inr None, en_sigterm = Inr None, en_actions = [], en_serve = Inr ()\<rparr>"



text \<open>
  C33 A poll interval of zero, which the command line accepts, kills the poller before its
  first tick and nobody notices: whatever happens, no poll is ever made or counted as
  failed, and the readiness endpoint still answers that the node is ready.
\<close>

theorem zero_interval_kills_poller:
  assumes "interval 0 = None" and "router (hl_route L)" and "nc_poll_ms cfg = 0" and "run C Di Dj Dt interval K m to_f64 cfg env = (r, Some (a, s))"
  shows "ns_poller s = PollDead \<and> mx_poll_total (ns_metrics s) = 0 \<and> mx_poll_errors (ns_metrics s) = 0 \<and>
    handle L K m P a (ns_metrics s) \<lparr>rq_method = GET, rq_path = ''/health/ready'', rq_body = b\<rparr> (ns_engine s) =
      Some (health_ready, ns_engine s)"
proof -
  obtain acts where s: "s = (let s' = node_run K m to_f64 (node_ports Di Dj Dt) (map of_node acts)
      (spawn_keepers interval (poll_interval cfg) (scan_interval cfg)
        (node_start (empty_engine (dm_new Di) (dm_new Dj) (dm_new Dt))))
    in if r = Stopped then abort_keepers s' else s')" and a: "a = build_app (request_timeout cfg)"
    using run_Some [OF assms(4)] unfolding Let_def by blast
  have "poller_dead s"
    unfolding s Let_def by (intro dead_aborted poller_dead_run spawn_dead assms(1,3))
  then show ?thesis
    by (simp add: poller_dead_def handle_def a router.route_spec [OF assms(2)])
qed

theorem zero_interval_kills_poller_witness:
  "mx_poll_total (ns_metrics (snd (the (snd (run
     (mem_channel :: (attestation_event mem_channel, nat, attestation_event) channel)
     assoc_map assoc_map assoc_map tokio_interval trunc_keccak Checked (\<lambda>x. x) (node_config_default\<lparr>nc_poll_ms := 0\<rparr>)
     (calm\<lparr>en_actions := [(1, Keep sim_source), (2, Keep sim_source)]\<rparr>)))))) = 0"
proof -
  let ?run = "run (mem_channel :: (attestation_event mem_channel, nat, attestation_event) channel)
     assoc_map assoc_map assoc_map tokio_interval trunc_keccak Checked (\<lambda>x. x) (node_config_default\<lparr>nc_poll_ms := 0\<rparr>)
     (calm\<lparr>en_actions := [(1, Keep sim_source), (2, Keep sim_source)]\<rparr>)"
  have "snd ?run \<noteq> None"
    by (simp add: run_def install_metrics_def calm_def node_config_default_def assemble_def bus_new_def
        mem_channel_def Let_def)
  then obtain q where q: "snd ?run = Some q" by blast
  have "?run = (fst ?run, Some (fst q, snd q))" by (rule prod_eqI) (simp only: fst_conv, simp only: q snd_conv prod.collapse)
  from zero_interval_kills_poller [where L = "lib_of []" and b = "[]" and K = trunc_keccak and m = Checked
        and P = "node_ports assoc_map assoc_map assoc_map", OF _ _ _ this] q
  show ?thesis by (simp add: tokio_interval_def lib_of_def table.router_axioms)
qed

text \<open>
  A signal handler that cannot be registered counts as the signal: the node stops at once,
  with success, having accepted no request.
\<close>

lemma unregistered_signal_stops:
  assumes "bus_new C (nc_bus_capacity cfg) \<noteq> None" and "en_recorder env = Inr ()"
    and "en_bind env (nc_bind cfg) = Inr ()" and "en_serve env = Inr ()"
    and "en_unix env" and "isl (en_sigint env) \<or> isl (en_sigterm env)"
  shows "\<exists>a s. run C Di Dj Dt interval K m to_f64 cfg env = (Stopped, Some (a, s)) \<and> ns_tasks s = []"
proof -
  have sd: "shutdown_signal (en_unix env) (en_sigint env) (en_sigterm env) = Some 0"
    using assms(5,6) shutdown_unregistered by (cases "en_sigint env"; cases "en_sigterm env") auto
  obtain bus where bus: "bus_new C (nc_bus_capacity cfg) = Some bus" using assms(1) by blast
  let ?P = "node_ports Di Dj Dt"
  let ?s0 = "node_run K m to_f64 ?P (map of_node (filter (Not \<circ> arrival) (en_starting env)))
      (spawn_keepers interval (poll_interval cfg) (scan_interval cfg)
        (node_start (empty_engine (dm_new Di) (dm_new Dj) (dm_new Dt))))"
  have "arrival \<circ> of_node = arrival" by (simp add: fun_eq_iff)
  then have none: "ns_tasks ?s0 = []"
    using node_run_arrivals [of K m to_f64 ?P] by (simp add: filter_map spawn_keepers_def node_start_def flip: length_0_conv)
  then have "serve_until K m to_f64 ?P (Some 0) (en_actions env) ?s0 = (True, ?s0)"
    by (cases "en_actions env") (auto simp: drained_def)
  with assms(2-4) none show ?thesis
    by (simp add: run_def install_metrics_def assemble_def bus sd Let_def abort_keepers_def)
qed

text \<open>The node panics at the start, and only then, without a recorder or without a bus.\<close>

lemma run_panics:
  "fst (run C Di Dj Dt interval K m to_f64 cfg env) = Panicked \<longleftrightarrow>
     isl (en_recorder env) \<or> bus_new C (nc_bus_capacity cfg) = None"
  by (auto simp: run_def install_metrics_def assemble_def Let_def case_prod_unfold
      split: sum.splits option.splits if_splits)

lemma zero_capacity_panics:
  assumes "channel C view" and "nc_bus_capacity cfg = 0"
  shows "fst (run C Di Dj Dt interval K m to_f64 cfg env) = Panicked"
  using channel.new_panics [OF assms(1), of 0] assms(2) by (simp add: run_panics bus_new_def)

end
