(* ===== verification/Subscription.thy ===== *)
theory Subscription
  imports Api Event_Bus
begin

text \<open>
  The subscription of \<open>api/src/lib.rs\<close> over the event bus: what a client of
  \<open>attestationEvents\<close> is sent while the engine serves requests. The framework polls the
  stream; the schema is always built with its context, and a missing one gives the empty
  stream.
\<close>

section \<open>The subscription\<close>

text \<open>\<open>ctx.data\<close> is \<open>Some\<close> of the bus; the receiver is \<open>None\<close> for the empty stream.\<close>

definition attestation_events ::
    "('c, 'r, attestation_event) channel \<Rightarrow> 'c option \<Rightarrow> 'r option \<times> 'c option" where
  "attestation_events C ctx =
     (case ctx of
        Some bus \<Rightarrow> (let (r, bus') = bus_subscribe C bus in (Some r, Some bus'))
      | None \<Rightarrow> (None, None))"

text \<open>\<open>k\<close> polls of \<open>stream.map(AttestationEventDto::from)\<close>; a panic ends the subscription.\<close>

fun subscription_run ::
    "arith_mode \<Rightarrow> ('c, 'r, attestation_event) channel \<Rightarrow> 'c \<Rightarrow> 'r \<Rightarrow> nat \<Rightarrow>
     (event_dto panicking list \<times> 'c) option"
where
  "subscription_run m C bus r 0 = Some ([], bus)"
| "subscription_run m C bus r (Suc k) =
     (case stream_next C bus r of
        None \<Rightarrow> None
      | Some (None, bus') \<Rightarrow> subscription_run m C bus' r k
      | Some (Some ev, bus') \<Rightarrow>
          (case event_to_dto m ev of
             None \<Rightarrow> Some ([None], bus')
           | Some d \<Rightarrow> map_option (\<lambda>(ds, bus''). (Some d # ds, bus'')) (subscription_run m C bus' r k)))"

text \<open>The engine's sink is the bus: what it publishes is sent, in order.\<close>

definition publish_all :: "('c, 'r, 'v) channel \<Rightarrow> 'c \<Rightarrow> 'v list \<Rightarrow> 'c" where
  "publish_all C bus evs = foldl (bus_publish C) bus evs"

section \<open>Successful requests and their events\<close>

definition successes :: "request list \<Rightarrow> (engine_error + reply) list \<Rightarrow> request list" where
  "successes rs replies = map fst (filter (\<lambda>p. \<not> isl (snd p)) (zip rs replies))"

lemma request_events:
  assumes "run_request K m P E req = Some (x, E')"
  shows "\<exists>evs. eg_events E' = eg_events E @ evs \<and> list_all2 event_matches (successes [req] [x]) evs"
  using one_event_per_success [OF assms] by (cases x) (auto simp: successes_def)

lemma successes_Cons: "successes (r # rs) (x # xs) = successes [r] [x] @ successes rs xs"
  by (simp add: successes_def)

lemma run_events:
  "run_requests K m P E rs = Some (xs, E') \<Longrightarrow>
     \<exists>evs. eg_events E' = eg_events E @ evs \<and> list_all2 event_matches (successes rs xs) evs"
proof (induction rs arbitrary: E xs)
  case Nil
  then show ?case by (simp add: successes_def)
next
  case (Cons r rs)
  then obtain x E1 ys where step: "run_request K m P E r = Some (x, E1)"
    and rest: "run_requests K m P E1 rs = Some (ys, E')" and xs: "xs = x # ys"
    by (auto split: option.splits simp del: run_request.simps)
  from request_events [OF step] obtain e1 where "eg_events E1 = eg_events E @ e1"
    "list_all2 event_matches (successes [r] [x]) e1" by blast
  moreover from Cons.IH [OF rest] obtain e2 where "eg_events E' = eg_events E1 @ e2"
    "list_all2 event_matches (successes rs ys) e2" by blast
  ultimately show ?case
    by (auto simp: xs successes_Cons [of r rs] intro!: list_all2_appendI exI [of _ "e1 @ e2"])
qed

text \<open>A request whose counts fit has an event that converts.\<close>

fun counts_fit :: "request \<Rightarrow> bool" where
  "counts_fit (IngestIdentity v) \<longleftrightarrow> length (idv_passkeys v) + length (idv_attestations v) < 2 ^ 32"
| "counts_fit _ \<longleftrightarrow> True"

lemma matching_event_converts:
  assumes "event_matches req ev" and "counts_fit req"
  shows "\<exists>d. event_to_dto m ev = Some d"
proof (cases req)
  case (IngestIdentity v)
  let ?p = "of_nat (length (idv_passkeys v)) :: u32" and ?a = "of_nat (length (idv_attestations v)) :: u32"
  have "unat ?p + unat ?a \<le> length (idv_passkeys v) + length (idv_attestations v)"
    by (intro add_mono) (simp_all add: unat_of_nat)
  with assms(2) IngestIdentity have "checked_add ?p ?a \<noteq> None" by (simp add: checked_add_None)
  with assms(1) IngestIdentity show ?thesis by (auto simp: add_u32_def)
qed (use assms(1) in auto)

lemma successes_subset: "set (successes rs xs) \<subseteq> set rs"
  by (auto simp: successes_def dest: set_zip_leftD)

lemma events_convert:
  assumes "list_all2 event_matches reqs evs" and "list_all counts_fit reqs"
  shows "\<exists>ds. map (event_to_dto m) evs = map Some ds"
  using assms
proof (induction rule: list_all2_induct)
  case (Cons req reqs ev evs)
  then obtain d ds where "event_to_dto m ev = Some d" "map (event_to_dto m) evs = map Some ds"
    using matching_event_converts [of req ev m] by auto
  then have "map (event_to_dto m) (ev # evs) = map Some (d # ds)" by simp
  then show ?case by blast
qed simp

text \<open>The subscription is the stream of the bus, converted.\<close>

lemma subscription_run_map:
  "bus_run C r bus (replicate k (Poll r)) = Some (got, bus') \<Longrightarrow>
     map (event_to_dto m) got = map Some ds \<Longrightarrow>
     subscription_run m C bus r k = Some (map Some ds, bus')"
proof (induction k arbitrary: bus got ds)
  case (Suc k)
  then obtain x b ys where nxt: "stream_next C bus r = Some (x, b)"
    and run: "bus_run C r b (replicate k (Poll r)) = Some (ys, bus')"
    and got: "got = (case x of None \<Rightarrow> ys | Some v \<Rightarrow> v # ys)"
    by (auto split: option.splits)
  show ?case
  proof (cases x)
    case None
    with nxt got Suc.IH [OF run] Suc.prems(2) show ?thesis by simp
  next
    case (Some v)
    with Suc.prems(2) got obtain d ds' where "ds = d # ds'" "event_to_dto m v = Some d"
      "map (event_to_dto m) ys = map Some ds'" by auto
    with Some nxt Suc.IH [OF run] show ?thesis by simp
  qed
qed simp

lemma bus_run_emits: "bus_run C r bus (map Emit evs @ ops) = bus_run C r (publish_all C bus evs) ops"
  by (induction evs arbitrary: bus) (simp_all add: publish_all_def)

lemma emitted_emits: "emitted (map Emit evs) = evs"
  by (induction evs) simp_all

context channel begin

text \<open>A subscriber that has just joined and then polls for each of the events gets them all.\<close>

lemma joined_gets_all:
  assumes "log_ok (view bus)" and "lg_pos (view bus) r = Some (length (lg_sent (view bus)))"
    and "length evs \<le> lg_cap (view bus)"
  shows "\<exists>bus'. bus_run C r (publish_all C bus evs) (replicate (length evs) (Poll r)) = Some (evs, bus')"
proof -
  let ?ops = "map Emit evs @ replicate (length evs) (Poll r) :: ('r, 'v) bus_op list"
  have em: "emitted ?ops = evs" by (simp add: emitted_polls emitted_emits)
  have "Leave r \<notin> set ?ops" and leave: "Leave r \<notin> set (map Emit evs :: ('r, 'v) bus_op list)" by auto
  from joined_gets [OF assms(1,2) this(1)] obtain got bus' where
    run: "bus_run C r bus ?ops = Some (got, bus')" and "prefix got evs"
    using assms(3) by (auto simp: em)
  moreover have "suffix evs got"
    using drained_suffix [OF assms(1,2) leave, of "length evs"] run assms(3)
    by (auto simp: emitted_emits)
  ultimately have "prefix got evs" "length evs \<le> length got"
    by (auto dest: suffix_length_le)
  then have "got = evs" by (auto simp: prefix_def)
  with run show ?thesis by (auto simp: bus_run_emits)
qed

end

section \<open>Properties\<close>

text \<open>
  C20 From a request to its subscribers: a client subscribes, then the engine serves any
  requests, publishing to the bus. If no more of them succeed than the capacity of the bus,
  the client's polls deliver exactly one message per successful request, in the order of
  the requests, each the conversion of the event of its request, and none for the requests
  that failed; counters whose sum fits 32 bits keep the conversion from panicking.
\<close>

theorem subscription_reports_requests:
  assumes "channel C view" and "bus_new C capacity = Some bus0"
    and "bus_run C q bus0 before = Some (ys, bus)"
    and "attestation_events C (Some bus) = (Some r, Some bus1)"
    and "run_requests K m P E rs = Some (replies, E')"
    and "list_all counts_fit rs" and "length (successes rs replies) \<le> capacity"
  shows "\<exists>evs ds bus2. eg_events E' = eg_events E @ evs \<and>
    list_all2 event_matches (successes rs replies) evs \<and> map (event_to_dto m') evs = map Some ds \<and>
    subscription_run m' C (publish_all C bus1 evs) r (length evs) = Some (map Some ds, bus2)"
proof -
  note ch = assms(1)
  have sub: "bus_subscribe C bus = (r, bus1)"
    using assms(4) by (auto simp: attestation_events_def split: prod.splits)
  have "log_ok (view bus) \<and> lg_cap (view bus) = lg_cap (view bus0)"
    using channel.bus_run_ok [OF ch, of bus0 q before] channel.bus_new_ok [OF ch assms(2)] assms(3) by auto
  then have joined: "log_ok (view bus1)" "capacity \<le> lg_cap (view bus1)"
    "lg_pos (view bus1) r = Some (length (lg_sent (view bus1)))"
    using channel.bus_new_ok [OF ch assms(2)] channel.subscribe_ok [OF ch, of bus]
      channel.subscribe_view [OF ch, of bus] sub
    by (auto simp: bus_subscribe_def dest: sym)
  from run_events [OF assms(5)] obtain evs where evs: "eg_events E' = eg_events E @ evs"
    "list_all2 event_matches (successes rs replies) evs" by blast
  have "list_all counts_fit (successes rs replies)"
    using assms(6) successes_subset [of rs replies] by (auto simp: list_all_iff)
  with events_convert [OF evs(2)] obtain ds where ds: "map (event_to_dto m') evs = map Some ds" by blast
  have "length evs \<le> lg_cap (view bus1)"
    using assms(7) joined(2) list_all2_lengthD [OF evs(2)] by linarith
  from channel.joined_gets_all [OF ch joined(1,3) this] obtain bus2 where
    "bus_run C r (publish_all C bus1 evs) (replicate (length evs) (Poll r)) = Some (evs, bus2)" by blast
  from subscription_run_map [OF this ds] evs ds show ?thesis by blast
qed

theorem subscription_reports_requests_witness:
  "\<exists>d bus. subscription_run Checked mem_channel
      (publish_all mem_channel demo_joined [IssuerIndexed (Pubkey (arr_fill 0xEE)) digest_zero]) 1 1 =
    Some ([Some d], bus)"
proof -
  have "attestation_events mem_channel (Some demo_bus) = (Some 1, Some demo_joined)"
    by (simp add: attestation_events_def demo_bus_subscribe)
  from subscription_reports_requests [OF mem.channel_axioms demo_bus_new _ this demo_ingest, of 1 "[]" "[]" Checked]
  show ?thesis by (auto simp: successes_def demo_E1_def empty_engine_def)
qed

end
