(* ===== verification/Core_Tests.thy ===== *)
theory Core_Tests
  imports Merkle_Onchain Engine_Props Precompile
begin

text \<open>
  The unit tests of the Merkle modules, of the precompile parser, of the domain types and of
  the engine, as executable checks of the model: an assertion is a conjunct, a value that
  would make \<open>unwrap\<close> panic makes the check false. The tests that expect an acceptance hold for
  every hash; those that expect a refusal hold exactly when the hash tells the two inputs
  apart.
\<close>

section \<open>On-chain Merkle check\<close>

definition leaf :: "u8 \<Rightarrow> 32 bytes" where
  "leaf b = arr_fill b"

definition single_leaf_tree_root_is_leaf :: "hashv \<Rightarrow> bool" where
  "single_leaf_tree_root_is_leaf H \<longleftrightarrow> (let l = leaf 1 in oc_verify H l [] 0 l = Some True)"

definition two_leaf_tree_membership :: "hashv \<Rightarrow> bool" where
  "two_leaf_tree_membership H \<longleftrightarrow>
     (let a = leaf 0xAA; b = leaf 0xBB; rt = oc_hash_pair H a b
      in oc_verify H a [b] 0 rt = Some True \<and> oc_verify H b [a] 1 rt = Some True)"

definition four_leaf_tree_membership :: "hashv \<Rightarrow> bool" where
  "four_leaf_tree_membership H \<longleftrightarrow>
     (let (a, b, c, d) = (leaf 1, leaf 2, leaf 3, leaf 4);
          ab = oc_hash_pair H a b;
          cd = oc_hash_pair H c d;
          rt = oc_hash_pair H ab cd
      in oc_verify H c [d, ab] 2 rt = Some True \<and> oc_verify H b [a, cd] 1 rt = Some True)"

definition wrong_proof_fails :: "hashv \<Rightarrow> bool" where
  "wrong_proof_fails H \<longleftrightarrow>
     (let a = leaf 0xAA; b = leaf 0xBB; rt = oc_hash_pair H a b
      in oc_verify H a [leaf 0xCC] 0 rt = Some False \<and> oc_verify H a [b] 1 rt = Some False)"

lemma onchain_merkle_tests:
  "single_leaf_tree_root_is_leaf H" "two_leaf_tree_membership H" "four_leaf_tree_membership H"
  "wrong_proof_fails H \<longleftrightarrow>
     oc_hash_pair H (leaf 0xAA) (leaf 0xCC) \<noteq> oc_hash_pair H (leaf 0xAA) (leaf 0xBB) \<and>
     oc_hash_pair H (leaf 0xBB) (leaf 0xAA) \<noteq> oc_hash_pair H (leaf 0xAA) (leaf 0xBB)"
  by (simp_all add: single_leaf_tree_root_is_leaf_def two_leaf_tree_membership_def
      four_leaf_tree_membership_def wrong_proof_fails_def Let_def oc_verify_def oc_compute_root_def)

section \<open>Off-chain Merkle tree\<close>

text \<open>\<open>t.proof(i).unwrap()\<close> verifies against \<open>t.root()\<close> for the leaf \<open>l\<close>.\<close>

definition accepted :: "'h keccak \<Rightarrow> arith_mode \<Rightarrow> merkle_tree \<Rightarrow> 32 bytes \<Rightarrow> nat \<Rightarrow> bool option" where
  "accepted K m t l i =
     (case (tree_proof m t i, tree_root t) of
        (Some (Some (sib, bits)), Some rt) \<Rightarrow> verify K m l sib bits rt
      | _ \<Rightarrow> None)"

definition single_leaf_root_is_leaf :: "'h keccak \<Rightarrow> arith_mode \<Rightarrow> bool" where
  "single_leaf_root_is_leaf K m \<longleftrightarrow>
     (let t = from_leaves K [leaf 1]
      in tree_root t = Some (leaf 1) \<and> accepted K m t (leaf 1) 0 = Some True)"

definition two_leaf_proofs_verify :: "'h keccak \<Rightarrow> arith_mode \<Rightarrow> bool" where
  "two_leaf_proofs_verify K m \<longleftrightarrow>
     (let t = from_leaves K [leaf 0xAA, leaf 0xBB]
      in tree_root t = Some (hash_pair K (leaf 0xAA) (leaf 0xBB)) \<and>
         list_all (\<lambda>i. accepted K m t (mt_levels t ! 0 ! i) i = Some True) [0..<2])"

definition four_leaf_proofs_verify :: "'h keccak \<Rightarrow> arith_mode \<Rightarrow> bool" where
  "four_leaf_proofs_verify K m \<longleftrightarrow>
     (let leaves = map leaf [1, 2, 3, 4]; t = from_leaves K leaves
      in list_all (\<lambda>(i, l). accepted K m t l i = Some True) (enumerate 0 leaves))"

definition odd_leaf_count_verifies :: "'h keccak \<Rightarrow> arith_mode \<Rightarrow> bool" where
  "odd_leaf_count_verifies K m \<longleftrightarrow>
     (let leaves = map leaf [1, 2, 3, 4, 5]; t = from_leaves K leaves
      in list_all (\<lambda>(i, l). accepted K m t l i = Some True) (enumerate 0 leaves) \<and>
         tree_proof m t 5 = Some None)"

definition wrong_leaf_fails :: "'h keccak \<Rightarrow> arith_mode \<Rightarrow> bool" where
  "wrong_leaf_fails K m \<longleftrightarrow>
     (let t = from_leaves K [leaf 1, leaf 2, leaf 3, leaf 4]
      in accepted K m t (leaf 9) 0 = Some False)"

definition empty_tree_zero_root :: "'h keccak \<Rightarrow> bool" where
  "empty_tree_zero_root K \<longleftrightarrow> (let t = from_leaves K [] in tree_root t = Some (arr_fill 0))"

lemma accepted_from_leaves:
  assumes "i < length leaves" and "length leaves \<le> 2 ^ 64"
  shows "accepted K m (from_leaves K leaves) l i =
    verify K m l (auth_path (hash_pair K) leaves i) (of_nat i) (mroot (hash_pair K) leaves)"
proof -
  have "leaves \<noteq> []" using assms(1) by auto
  then show ?thesis
    by (simp add: accepted_def tree_proof_from_leaves [OF assms] tree_root_from_leaves)
qed

lemma accepted_leaf:
  assumes "i < length leaves" and "length leaves \<le> 2 ^ 64" and "leaves ! i = l"
  shows "accepted K m (from_leaves K leaves) l i = Some True"
proof -
  have "length (auth_path (hash_pair K) leaves i) \<le> 64"
    using assms(1,2) tree_depth_le_iff [of "length leaves" 64] by (simp only: length_auth_path)
  then show ?thesis
    unfolding accepted_from_leaves [OF assms(1,2)]
    using fold_auth_path_bits [OF assms(1,2), of "hash_pair K"] assms(3)
    by (simp add: verify_def compute_root_def root_loop_fold)
qed

lemma accepted_all:
  "length leaves \<le> 2 ^ 64 \<Longrightarrow>
     list_all (\<lambda>(i, l). accepted K m (from_leaves K leaves) l i = Some True) (enumerate 0 leaves)"
  by (auto simp: list_all_length nth_enumerate_eq intro: accepted_leaf)

lemma offchain_merkle_tests:
  "single_leaf_root_is_leaf K m" "two_leaf_proofs_verify K m" "four_leaf_proofs_verify K m"
  "odd_leaf_count_verifies K m" "empty_tree_zero_root K"
proof -
  show "single_leaf_root_is_leaf K m"
    by (simp add: single_leaf_root_is_leaf_def Let_def accepted_leaf tree_root_from_leaves mroot.simps)
  have "mt_levels (from_leaves K [leaf 0xAA, leaf 0xBB]) ! 0 = [leaf 0xAA, leaf 0xBB]"
    by (simp add: from_leaves_levels flip: hd_conv_nth)
  then show "two_leaf_proofs_verify K m"
    by (auto simp: two_leaf_proofs_verify_def Let_def list_all_iff tree_root_from_leaves mroot.simps
        intro!: accepted_leaf)
  show "four_leaf_proofs_verify K m"
    unfolding four_leaf_proofs_verify_def Let_def by (intro accepted_all) simp
  show "odd_leaf_count_verifies K m"
    unfolding odd_leaf_count_verifies_def Let_def by (intro conjI accepted_all tree_proof_out) simp_all
  show "empty_tree_zero_root K"
    by (simp add: empty_tree_zero_root_def tree_root_empty)
qed

lemma wrong_leaf_test:
  "wrong_leaf_fails K m \<longleftrightarrow>
     hash_pair K (hash_pair K (leaf 9) (leaf 2)) (hash_pair K (leaf 3) (leaf 4)) \<noteq>
     hash_pair K (hash_pair K (leaf 1) (leaf 2)) (hash_pair K (leaf 3) (leaf 4))"
  by (simp add: wrong_leaf_fails_def Let_def accepted_from_leaves mroot.simps auth_path.simps
      verify_def compute_root_def)

section \<open>Precompile parser\<close>

text \<open>The bytes of \<open>b"login-challenge-nonce"\<close>.\<close>

definition ascii :: "string \<Rightarrow> u8 list" where
  "ascii s = map (\<lambda>c. of_nat (of_char c)) s"

definition extracts_embedded_credential :: bool where
  "extracts_embedded_credential \<longleftrightarrow>
     (let pubkey = replicate P256_PUBKEY_LEN 0xAB; message = ascii ''login-challenge-nonce'';
          data = blob pubkey message
      in case extract_embedded data of
           None \<Rightarrow> False
         | Some vc \<Rightarrow> vc_pubkey vc = pubkey \<and> vc_message vc = message)"

definition rejects_empty_and_zero_sigs :: bool where
  "rejects_empty_and_zero_sigs \<longleftrightarrow> extract_embedded [] = None \<and> extract_embedded [0, 0] = None"

definition rejects_cross_instruction_reference :: bool where
  "rejects_cross_instruction_reference \<longleftrightarrow>
     (let data = blob (replicate P256_PUBKEY_LEN 1) (ascii ''x'');
          data = write_u16 data 8 0
      in extract_embedded data = None)"

definition rejects_truncated_offsets :: bool where
  "rejects_truncated_offsets \<longleftrightarrow> extract_embedded [1, 0, 0, 0] = None"

lemma precompile_tests:
  "extracts_embedded_credential" "rejects_empty_and_zero_sigs"
  "rejects_cross_instruction_reference" "rejects_truncated_offsets"
proof -
  show "extracts_embedded_credential"
    by (simp add: extracts_embedded_credential_def ascii_def Let_def extract_blob)
  show "rejects_empty_and_zero_sigs" "rejects_truncated_offsets"
    by (simp_all add: rejects_empty_and_zero_sigs_def rejects_truncated_offsets_def extract_embedded_def
        elem_get_def read_u16_def slice_get_def OFFSETS_LEN_def)
  have "length (blob (replicate P256_PUBKEY_LEN 1) (ascii ''x'')) = 114"
    by (simp add: blob_def ascii_def Let_def P256_PUBKEY_LEN_def OFFSETS_LEN_def)
  then have "u16_at (write_u16 (blob (replicate P256_PUBKEY_LEN 1) (ascii ''x'')) 8 0) 8 = 0"
    by simp
  then have "extract_embedded (write_u16 (blob (replicate P256_PUBKEY_LEN 1) (ascii ''x'')) 8 0) \<noteq> Some vc" for vc
    unfolding extract_embedded_iff by (simp add: IX_INDEX_SELF_def)
  then show "rejects_cross_instruction_reference"
    by (auto simp: rejects_cross_instruction_reference_def Let_def intro: option.exhaust)
qed

section \<open>Domain types\<close>

definition hex_roundtrips :: bool where
  "hex_roundtrips \<longleftrightarrow>
     (let k = Pubkey (arr_fill 0x2a); d = Digest (arr_fill 0xff)
      in pubkey_from_hex (pubkey_to_hex k) = Inr k \<and> digest_from_hex (digest_to_hex d) = Inr d \<and>
         isl (digest_from_hex ''00'') \<and> digest_zero = Digest (arr_fill 0))"

lemma types_tests: "hex_roundtrips"
proof -
  have "(decode_hex ''00'' :: domain_error + 32 bytes) = Inl (InvalidHex 32)"
    by (simp add: decode_hex_def Let_def)
  then show ?thesis
    by (simp add: hex_roundtrips_def Let_def pubkey_from_hex_def pubkey_to_hex_def digest_from_hex_def
        digest_to_hex_def digest_zero_def)
qed

section \<open>Engine\<close>

definition test_engine :: "(identity_view list, issuer_view list, (pubkey \<times> digest list) list) engine" where
  "test_engine = empty_engine [] [] []"

definition test_issuer :: "u8 \<Rightarrow> issuer_view" where
  "test_issuer addr =
     \<lparr>isv_address = Pubkey (arr_fill addr), isv_authority = Pubkey (arr_fill 2),
      isv_schema_id = Digest (arr_fill 3), isv_merkle_root = digest_zero, isv_attestation_count = 0\<rparr>"

definition build_prove_and_verify :: "'h keccak \<Rightarrow> arith_mode \<Rightarrow> bool" where
  "build_prove_and_verify K m \<longleftrightarrow>
     (let e = test_engine; addr = Pubkey (arr_fill 5);
          (r, e) = ingest_issuer test_ports e (test_issuer 5);
          leaves = map (\<lambda>b. Digest (arr_fill b)) [1, 2, 3, 4]
      in r = Inr () \<and>
        (case build_tree K test_ports e addr leaves of
           Some (Inr rt, e) \<Rightarrow> rt \<noteq> digest_zero \<and>
             (case prove K m test_ports e addr 2 of
                Some (Inr proof) \<Rightarrow> mp_leaf proof = leaves ! 2 \<and>
                  (case verify_proof K m test_ports e addr proof of
                     Some (Inr ok, e) \<Rightarrow> ok \<and>
                       (let bad = proof\<lparr>mp_leaf := Digest (arr_fill 9)\<rparr>
                        in case verify_proof K m test_ports e addr bad of
                             Some (Inr ok, e) \<Rightarrow> \<not> ok | _ \<Rightarrow> False)
                   | _ \<Rightarrow> False)
              | _ \<Rightarrow> False)
         | _ \<Rightarrow> False))"

definition stats_count_passkeys_and_attestations :: "arith_mode \<Rightarrow> bool" where
  "stats_count_passkeys_and_attestations m \<longleftrightarrow>
     (let e = test_engine;
          (r, e) = ingest_identity test_ports e
            \<lparr>idv_address = Pubkey (arr_fill 1), idv_owner = Pubkey (arr_fill 2), idv_passkeys = [],
             idv_attestations = [\<lparr>atv_issuer = Pubkey (arr_fill 5), atv_schema_id = Digest (arr_fill 3),
               atv_claimed_ts = 0\<rparr>]\<rparr>;
          (r', e) = ingest_issuer test_ports e (test_issuer 5)
      in r = Inr () \<and> r' = Inr () \<and>
        (case stats m test_ports e of
           Some (Inr s) \<Rightarrow> st_identities s = 1 \<and> st_issuers s = 1 \<and> st_attestations s = 1
         | _ \<Rightarrow> False))"

definition prove_out_of_range_errors :: "'h keccak \<Rightarrow> arith_mode \<Rightarrow> bool" where
  "prove_out_of_range_errors K m \<longleftrightarrow>
     (let e = test_engine; addr = Pubkey (arr_fill 7);
          (r, e) = ingest_issuer test_ports e (test_issuer 7)
      in r = Inr () \<and>
        (case build_tree K test_ports e addr [Digest (arr_fill 1)] of
           Some (Inr _, e) \<Rightarrow> prove K m test_ports e addr 5 = Some (Inl (LeafOutOfRange 5))
         | _ \<Rightarrow> False))"

text \<open>An engine that has ingested the issuer and built its tree.\<close>

definition built_engine where
  "built_engine K addr leaves =
     \<lparr>eg_identities = [], eg_issuers = [(test_issuer addr)\<lparr>isv_merkle_root := root_of K leaves\<rparr>],
      eg_trees = [(Pubkey (arr_fill addr), leaves)],
      eg_events = [IssuerIndexed (Pubkey (arr_fill addr)) digest_zero,
        TreeBuilt (Pubkey (arr_fill addr)) (root_of K leaves) (of_nat (length leaves))]\<rparr>"

lemma test_ingest:
  "ingest_issuer test_ports test_engine (test_issuer addr) = (Inr (),
     \<lparr>eg_identities = [], eg_issuers = [test_issuer addr], eg_trees = [],
      eg_events = [IssuerIndexed (Pubkey (arr_fill addr)) digest_zero]\<rparr>)"
  by (simp add: ingest_issuer_def test_ports_def MemIssuers_def vec_store_def test_engine_def
      empty_engine_def publish_def test_issuer_def)

lemma test_build:
  "build_tree K test_ports (snd (ingest_issuer test_ports test_engine (test_issuer addr)))
      (Pubkey (arr_fill addr)) leaves = Some (Inr (root_of K leaves), built_engine K addr leaves)"
  unfolding test_ingest
  by (simp add: build_tree_def test_ports_def MemIssuers_def MemTrees_def vec_store_def engine_ports.tree_root_digests [OF test.engine_ports_axioms]
      publish_def built_engine_def test_issuer_def Let_def)

lemma built_lookup:
  "leaf_lookup (p_trees test_ports) (eg_trees (built_engine K addr leaves)) (Pubkey (arr_fill addr)) = Some leaves"
  by (simp add: leaf_lookup_def test_ports_def MemTrees_def built_engine_def)

lemma built_prove:
  "length leaves \<le> 2 ^ 64 \<Longrightarrow> prove K m test_ports (built_engine K addr leaves) (Pubkey (arr_fill addr)) i =
     (if i < length leaves then Some (Inr \<lparr>mp_leaf = leaves ! i,
        mp_siblings = map Digest (auth_path (hash_pair K) (map dg_bytes leaves) i), mp_index_bits = of_nat i\<rparr>)
      else if leaves = [] \<and> i = 0 then None else Some (Inl (LeafOutOfRange i)))"
  using engine_ports.prove_eq [OF test.engine_ports_axioms, of "built_engine K addr leaves" "Pubkey (arr_fill addr)" K m i]
  by (simp add: built_lookup)

lemma built_verify:
  "eg_issuers E = eg_issuers (built_engine K addr leaves) \<Longrightarrow>
   verify_proof K m test_ports E (Pubkey (arr_fill addr)) pf =
     map_option (\<lambda>ok. (Inr ok, publish E (ProofVerified (Pubkey (arr_fill addr)) ok)))
       (verify K m (dg_bytes (mp_leaf pf)) (map dg_bytes (mp_siblings pf)) (mp_index_bits pf) (dg_bytes (root_of K leaves)))"
  by (simp add: verify_proof_def built_engine_def test_ports_def MemIssuers_def vec_store_def test_issuer_def
      split: option.split)

lemma engine_tests:
  "build_prove_and_verify K m \<longleftrightarrow>
     hash_pair K (hash_pair K (leaf 1) (leaf 2)) (hash_pair K (leaf 3) (leaf 4)) \<noteq> leaf 0 \<and>
     hash_pair K (hash_pair K (leaf 1) (leaf 2)) (hash_pair K (leaf 9) (leaf 4)) \<noteq>
       hash_pair K (hash_pair K (leaf 1) (leaf 2)) (hash_pair K (leaf 3) (leaf 4))"
  "stats_count_passkeys_and_attestations m" "prove_out_of_range_errors K m"
proof -
  let ?ls = "map (\<lambda>b. Digest (arr_fill b)) [1, 2, 3, 4 :: u8]"
  have root: "dg_bytes (root_of K ?ls) = hash_pair K (hash_pair K (leaf 1) (leaf 2)) (hash_pair K (leaf 3) (leaf 4))"
    by (simp add: root_of_def mroot.simps leaf_def)
  have zero: "root_of K ?ls \<noteq> digest_zero \<longleftrightarrow> dg_bytes (root_of K ?ls) \<noteq> leaf 0"
    by (cases "root_of K ?ls") (simp add: digest_zero_def leaf_def)
  have built: "build_tree K test_ports (snd (ingest_issuer test_ports test_engine (test_issuer a)))
      (Pubkey (arr_fill a)) ls = Some (Inr (root_of K ls), built_engine K a ls)" for a ls
    by (rule test_build)
  let ?path = "[leaf 4, hash_pair K (leaf 1) (leaf 2)]"
  have check: "verify K m (leaf b) ?path 2 rt =
      Some (hash_pair K (hash_pair K (leaf 1) (leaf 2)) (hash_pair K (leaf b) (leaf 4)) = rt)" for b rt
    by (simp add: verify_def compute_root_def)
  have "auth_path (hash_pair K) (map dg_bytes ?ls) 2 = ?path"
    by (simp add: auth_path.simps leaf_def)
  then have prove: "prove K m test_ports (built_engine K 5 ?ls) (Pubkey (arr_fill 5)) 2 =
      Some (Inr \<lparr>mp_leaf = Digest (leaf 3), mp_siblings = map Digest ?path, mp_index_bits = 2\<rparr>)"
    using built_prove [of ?ls K m 5 2] by (simp add: leaf_def)
  have verify: "verify_proof K m test_ports E (Pubkey (arr_fill 5))
      \<lparr>mp_leaf = Digest (leaf b), mp_siblings = map Digest ?path, mp_index_bits = 2\<rparr> =
    Some (Inr (hash_pair K (hash_pair K (leaf 1) (leaf 2)) (hash_pair K (leaf b) (leaf 4)) = dg_bytes (root_of K ?ls)),
      publish E (ProofVerified (Pubkey (arr_fill 5))
        (hash_pair K (hash_pair K (leaf 1) (leaf 2)) (hash_pair K (leaf b) (leaf 4)) = dg_bytes (root_of K ?ls))))"
    if "eg_issuers E = eg_issuers (built_engine K 5 ?ls)" for E b
    using built_verify [OF that, of m] check [of b] by simp
  have same: "eg_issuers (publish E ev) = eg_issuers E" for E :: "('i, 'j, 't) engine" and ev
    by (simp add: publish_def)
  have leaf9: "\<lparr>mp_leaf = Digest (leaf 3), mp_siblings = ss, mp_index_bits = 2\<rparr>\<lparr>mp_leaf := Digest (arr_fill 9)\<rparr> =
      \<lparr>mp_leaf = Digest (leaf 9), mp_siblings = ss, mp_index_bits = 2\<rparr>" for ss
    by (simp add: leaf_def)
  have ingest: "ingest_issuer test_ports test_engine (test_issuer 5) =
      (Inr (), snd (ingest_issuer test_ports test_engine (test_issuer 5)))"
    by (simp add: test_ingest)
  have third: "Digest (leaf 3) = ?ls ! 2" by (simp add: leaf_def)
  show "build_prove_and_verify K m \<longleftrightarrow>
     hash_pair K (hash_pair K (leaf 1) (leaf 2)) (hash_pair K (leaf 3) (leaf 4)) \<noteq> leaf 0 \<and>
     hash_pair K (hash_pair K (leaf 1) (leaf 2)) (hash_pair K (leaf 9) (leaf 4)) \<noteq>
       hash_pair K (hash_pair K (leaf 1) (leaf 2)) (hash_pair K (leaf 3) (leaf 4))"
    unfolding build_prove_and_verify_def Let_def
    by (subst ingest)
      (simp only: prod.case built option.case sum.case prove leaf9 verify [OF refl] verify [OF same]
        zero root third [symmetric] merkle_proof.select_convs simp_thms)
  show "stats_count_passkeys_and_attestations m"
    by (simp add: stats_count_passkeys_and_attestations_def Let_def test_engine_def empty_engine_def
        ingest_identity_def ingest_issuer_def publish_def test_ports_def MemIdentities_def MemIssuers_def
        vec_store_def stats_def checked_add_def split: option.split)
  show "prove_out_of_range_errors K m"
    using built [of 7 "[Digest (arr_fill 1)]"] built_prove [of "[Digest (arr_fill 1)]" K m 7 5]
    by (simp add: prove_out_of_range_errors_def Let_def test_ingest)
qed

section \<open>A hash that tells the inputs apart\<close>

definition sum_keccak :: "u8 list keccak" where
  "sum_keccak = \<lparr>k_new = [], k_update = (\<lambda>h b. h @ b),
     k_finalize = (\<lambda>h. arr_of (map2 (\<lambda>a b. 3 * a + b) (take 32 h) (take 32 (drop 32 h))))\<rparr>"

definition sum_hashv :: hashv where
  "sum_hashv parts = k_finalize sum_keccak (concat parts)"

lemma map2_replicate: "map2 f (replicate n a) (replicate n b) = replicate n (f a b)"
  by (induction n) simp_all

lemma hash_pair_sum: "hash_pair sum_keccak (leaf a) (leaf b) = leaf (3 * a + b)"
  by (simp add: hash_pair_def sum_keccak_def Let_def leaf_def arr_fill_def map2_replicate)

lemma hashv_sum: "oc_hash_pair sum_hashv (leaf a) (leaf b) = leaf (3 * a + b)"
  by (simp add: oc_hash_pair_def sum_hashv_def sum_keccak_def leaf_def arr_fill_def map2_replicate)

lemma leaf_eq_iff: "leaf a = leaf b \<longleftrightarrow> a = b"
  by (simp add: leaf_def arr_fill_eq_iff)

text \<open>
  All of them: for every hash those that expect an acceptance or a range error; those that
  expect a refusal exactly when the hash tells the tampered input from the genuine one, and so
  for the hash \<open>sum_keccak\<close>.
\<close>

lemma core_tests:
  "(single_leaf_tree_root_is_leaf H \<and> two_leaf_tree_membership H \<and> four_leaf_tree_membership H) \<and>
   (single_leaf_root_is_leaf K m \<and> two_leaf_proofs_verify K m \<and> four_leaf_proofs_verify K m \<and>
    odd_leaf_count_verifies K m \<and> empty_tree_zero_root K) \<and>
   (extracts_embedded_credential \<and> rejects_empty_and_zero_sigs \<and> rejects_cross_instruction_reference \<and>
    rejects_truncated_offsets \<and> hex_roundtrips) \<and>
   (stats_count_passkeys_and_attestations m \<and> prove_out_of_range_errors K m) \<and>
   (wrong_leaf_fails K m \<longleftrightarrow>
     hash_pair K (hash_pair K (leaf 9) (leaf 2)) (hash_pair K (leaf 3) (leaf 4)) \<noteq>
     hash_pair K (hash_pair K (leaf 1) (leaf 2)) (hash_pair K (leaf 3) (leaf 4))) \<and>
   (wrong_proof_fails sum_hashv \<and> wrong_leaf_fails sum_keccak m \<and> build_prove_and_verify sum_keccak m)"
  by (simp add: onchain_merkle_tests offchain_merkle_tests precompile_tests types_tests engine_tests
      wrong_leaf_test hash_pair_sum hashv_sum leaf_eq_iff)

end
