(* ===== verification/Node_Tests.thy ===== *)
theory Node_Tests
  imports Node Subscription Core_Tests
begin

text \<open>
  The unit tests of the adapters, the resilience primitives, the API, the keepers and the node,
  as executable checks of the model like those of \<open>Core_Tests\<close>. They run over any \<open>DashMap\<close>,
  broadcast channel and timer that keep their contracts, and over any hash; the documents of
  the API tests appear as the fields they ask for.
\<close>

section \<open>Adapters\<close>

definition identity_store_roundtrip :: "('m, 32 bytes, identity_view) dashmap \<Rightarrow> bool" where
  "identity_store_roundtrip D \<longleftrightarrow>
     (let s = InMemoryIdentityStore D; v = demo_identity;
          (r, g) = sto_upsert s (dm_new D) v
      in r = Inr () \<and> sto_get s g (idv_address v) = Inr v \<and>
         sto_get s g (Pubkey (arr_fill 0)) = Inl NotFound)"

definition tree_store_roundtrip :: "('m, 32 bytes, digest list) dashmap \<Rightarrow> bool" where
  "tree_store_roundtrip D \<longleftrightarrow>
     (let s = InMemoryTreeStore D; issuer = Pubkey (arr_fill 1);
          (r, g) = lst_put s (dm_new D) issuer [Digest (arr_fill 2)]
      in r = Inr () \<and>
         (case lst_get s g issuer of Inr leaves \<Rightarrow> length leaves = 1 | Inl _ \<Rightarrow> False))"

definition bus_delivers_events :: "('c, 'r, attestation_event) channel \<Rightarrow> bool" where
  "bus_delivers_events C \<longleftrightarrow>
     (case bus_new C 8 of
        None \<Rightarrow> False
      | Some bus \<Rightarrow>
          (let (stream, bus) = bus_subscribe C bus;
               bus = bus_publish C bus (ProofVerified (Pubkey (arr_fill 1)) True)
           in case stream_next C bus stream of
                Some (Some (ProofVerified _ valid), _) \<Rightarrow> valid
              | _ \<Rightarrow> False))"

definition sim_mints_identity_and_issuer :: bool where
  "sim_mints_identity_and_issuer \<longleftrightarrow>
     (case sim_poll_identities of Inr ids \<Rightarrow> length ids = 1 | Inl _ \<Rightarrow> False) \<and>
     (case sim_poll_issuers of Inr iss \<Rightarrow> length iss = 1 | Inl _ \<Rightarrow> False)"

lemma identity_store_test:
  assumes "identity_map D"
  shows "identity_store_roundtrip D"
proof -
  note store = identity_map.healthy [OF assms]
  have "fst (sto_upsert (InMemoryIdentityStore D) (dm_new D) demo_identity) = Inr ()"
    by (rule keyed_store.upsert_succeeds [OF store])
  moreover have "Pubkey (arr_fill 0) \<noteq> idv_address demo_identity" by (simp add: demo_identity_def)
  ultimately show ?thesis
    using keyed_store.get_upsert [OF store keyed_store.ok_empty [OF store], of demo_identity]
      keyed_store.get_empty [OF store]
    by (simp add: identity_store_roundtrip_def Let_def case_prod_unfold)
qed

lemma tree_store_test:
  assumes "leaves_map D"
  shows "tree_store_roundtrip D"
  using leaf_map.put_succeeds [OF leaves_map.healthy [OF assms]] leaf_map.leaves_put [OF leaves_map.healthy [OF assms]]
  by (simp add: tree_store_roundtrip_def Let_def case_prod_unfold)

lemma bus_test:
  assumes "channel C view" and "bus_new C 8 \<noteq> None"
  shows "bus_delivers_events C"
proof -
  obtain bus where bus: "bus_new C 8 = Some bus" using assms(2) by blast
  obtain r bus1 where sub: "bus_subscribe C bus = (r, bus1)" by fastforce
  let ?ev = "ProofVerified (Pubkey (arr_fill 1)) True"
  let ?bus = "bus_publish C bus1 ?ev"
  have new: "log_ok (view bus)" "lg_sent (view bus) = []"
    using channel.bus_new_ok [OF assms(1) bus] by simp_all
  have bus1: "view bus1 = (view bus)\<lparr>lg_pos := (lg_pos (view bus))(r \<mapsto> 0)\<rparr>"
    using channel.subscribe_view [OF assms(1), of bus] sub new(2) by (simp add: bus_subscribe_def)
  have "log_ok (view bus1)" using channel.subscribe_ok [OF assms(1) new(1)] sub by simp
  then have "log_ok (view ?bus)" by (rule channel.publish_ok [OF assms(1)])
  moreover have sent: "lg_sent (view ?bus) = [?ev]" "lg_pos (view ?bus) r = Some 0"
    using new(2) by (simp_all add: channel.publish_view [OF assms(1)] bus1)
  moreover have "0 < lg_cap (view ?bus)" using calculation(1) by (simp add: log_ok_def)
  ultimately show ?thesis
    using channel.stream_next_eq [OF assms(1), of ?bus r 0]
    by (auto simp: bus_delivers_events_def bus sub next_read_def)
qed

section \<open>Resilience\<close>

definition timeout_fires :: "(duration \<Rightarrow> 'fut \<Rightarrow> int option) \<Rightarrow> (duration \<Rightarrow> int \<Rightarrow> 'fut) \<Rightarrow> bool" where
  "timeout_fires timeout sleep_then \<longleftrightarrow>
     isl (with_timeout timeout (from_millis 5) (sleep_then (from_millis 10000) 1))"

definition timeout_passes :: "(duration \<Rightarrow> 'fut \<Rightarrow> int option) \<Rightarrow> (duration \<Rightarrow> int \<Rightarrow> 'fut) \<Rightarrow> bool" where
  "timeout_passes timeout sleep_then \<longleftrightarrow>
     with_timeout timeout (from_millis 1000) (sleep_then 0 42) = Inr 42"

definition backoff_is_bounded_and_grows :: "(duration \<Rightarrow> nat \<Rightarrow> duration) \<Rightarrow> bool" where
  "backoff_is_bounded_and_grows mul_milli \<longleftrightarrow>
     (let p = retry_default
      in backoff mul_milli p 0 \<le> rp_max_delay p \<and> backoff mul_milli p 10 \<le> rp_max_delay p)"

definition retry_succeeds_after_failures :: "(duration \<Rightarrow> nat \<Rightarrow> duration) \<Rightarrow> bool" where
  "retry_succeeds_after_failures mul_milli \<longleftrightarrow>
     (let p = \<lparr>rp_max_attempts = 4, rp_base_delay = from_millis 1, rp_max_delay = from_millis 4\<rparr>;
          out = fst (retry mul_milli p (\<lambda>k. let n = k + 1 in if n < 3 then Inl ''boom'' else Inr n))
      in out = Inr 3)"

definition breaker_opens_and_recovers :: "arith_mode \<Rightarrow> bool" where
  "breaker_opens_and_recovers m \<longleftrightarrow>
     (let clock = manual_new 0;
          b = breaker_new 2 (from_millis 100);
          (s0, b) = breaker_get_state (manual_now clock) b
      in s0 = Closed \<and>
        (case breaker_on_failure m (manual_now clock) b of
           None \<Rightarrow> False
         | Some b \<Rightarrow>
             (let (r1, b) = breaker_acquire (manual_now clock) b
              in r1 = Inr () \<and>
                (case breaker_on_failure m (manual_now clock) b of
                   None \<Rightarrow> False
                 | Some b \<Rightarrow>
                     (let (s2, b) = breaker_get_state (manual_now clock) b;
                          (r2, b) = breaker_acquire (manual_now clock) b;
                          clock = manual_advance (from_millis 150) clock;
                          (s3, b) = breaker_get_state (manual_now clock) b;
                          b = breaker_on_success b;
                          (s4, b) = breaker_get_state (manual_now clock) b
                      in s2 = Open \<and> isl r2 \<and> s3 = HalfOpen \<and> s4 = Closed)))))"

definition rate_limiter_refills :: "'f f64_ops \<Rightarrow> bool" where
  "rate_limiter_refills F \<longleftrightarrow>
     (let clock = manual_new 0;
          rl = limiter_new (manual_now clock) (f_of F 2) (f_of F 10);
          (r1, rl) = try_acquire F (manual_now clock) rl;
          (r2, rl) = try_acquire F (manual_now clock) rl;
          (r3, rl) = try_acquire F (manual_now clock) rl;
          clock = manual_advance (from_millis 200) clock;
          (r4, rl) = try_acquire F (manual_now clock) rl
      in r1 = Inr () \<and> r2 = Inr () \<and> isl r3 \<and> r4 = Inr ())"

text \<open>A sleep that is followed by a value completes with it when the sleep is over.\<close>

lemma timeout_tests:
  assumes "timer timeout completes" and "\<And>d v. completes (sleep_then d v) = Some (d, v)"
  shows "timeout_fires timeout sleep_then" and "timeout_passes timeout sleep_then"
  using timer.too_late [OF assms(1) assms(2), of "from_millis 10000" "from_millis 5" 1]
    timer.in_time [OF assms(1) assms(2), of 0 "from_millis 1000" 42]
  by (simp_all add: timeout_fires_def timeout_passes_def with_timeout_def from_millis_def)

lemma retry_test: "retry_succeeds_after_failures mul_milli"
  by (simp add: retry_succeeds_after_failures_def retry_def Let_def retry_loop.simps)

lemma breaker_test: "breaker_opens_and_recovers m"
  by (simp add: breaker_opens_and_recovers_def Let_def breaker_new_def breaker_get_state_def
      breaker_on_failure_def breaker_acquire_def breaker_on_success_def manual_new_def manual_now_def
      manual_advance_def from_millis_def as_millis_u64_def checked_add_def saturating_sub_def
      word_le_nat_alt)

lemma limiter_test: "rate_limiter_refills rat_ops"
  by (simp add: rate_limiter_refills_def Let_def limiter_new_def try_acquire_def try_acquire_n_def
      manual_new_def manual_now_def manual_advance_def from_millis_def as_millis_u64_def rat_ops_def
      saturating_sub_def word_le_nat_alt)

section \<open>Configuration, keepers and the API\<close>

definition defaults_are_sane :: bool where
  "defaults_are_sane \<longleftrightarrow>
     (let c = node_config_default
      in poll_interval c = from_millis 1000 \<and> scan_interval c = from_millis 2000)"

definition poll_then_scan ::
    "arith_mode \<Rightarrow> (u64 \<Rightarrow> 'f) \<Rightarrow> ('i, 32 bytes, identity_view) dashmap \<Rightarrow>
     ('j, 32 bytes, issuer_view) dashmap \<Rightarrow> ('t, 32 bytes, digest list) dashmap \<Rightarrow> bool" where
  "poll_then_scan m to_f64 Di Dj Dt \<longleftrightarrow>
     (let P = node_ports Di Dj Dt;
          e = empty_engine (dm_new Di) (dm_new Dj) (dm_new Dt);
          (r, (e, M)) = poll_once P sim_source (e, metrics_start)
      in r = Inr 2 \<and>
        (case scan_once m to_f64 P (e, M) of Some (Inr _, M) \<Rightarrow> True | _ \<Rightarrow> False) \<and>
        (case identities_snapshot P e of Inr ids \<Rightarrow> length ids = 1 | Inl _ \<Rightarrow> False))"

text \<open>An executed field is free of errors when it returns a value.\<close>

definition no_errors :: "((string + gql_value) \<times> 'e) panicking \<Rightarrow> bool" where
  "no_errors res = (case res of Some (Inr _, _) \<Rightarrow> True | _ \<Rightarrow> False)"

definition stats_query_executes ::
    "'h keccak \<Rightarrow> arith_mode \<Rightarrow> ('i, 32 bytes, identity_view) dashmap \<Rightarrow>
     ('j, 32 bytes, issuer_view) dashmap \<Rightarrow> ('t, 32 bytes, digest list) dashmap \<Rightarrow> bool" where
  "stats_query_executes K m Di Dj Dt \<longleftrightarrow>
     no_errors (exec_field K m (node_ports Di Dj Dt) QStats (empty_engine (dm_new Di) (dm_new Dj) (dm_new Dt)))"

definition repeat32 :: "string \<Rightarrow> string" where
  "repeat32 s = concat (replicate 32 s)"

definition ingest_build_and_verify ::
    "'h keccak \<Rightarrow> arith_mode \<Rightarrow> ('i, 32 bytes, identity_view) dashmap \<Rightarrow>
     ('j, 32 bytes, issuer_view) dashmap \<Rightarrow> ('t, 32 bytes, digest list) dashmap \<Rightarrow> bool" where
  "ingest_build_and_verify K m Di Dj Dt \<longleftrightarrow>
     (let P = node_ports Di Dj Dt;
          e = empty_engine (dm_new Di) (dm_new Dj) (dm_new Dt);
          issuer = repeat32 ''ee''; key = repeat32 ''11''; schema_id = repeat32 ''07''
      in case exec_field K m P (MIngestIssuer issuer key schema_id) e of
           Some (Inr _, e) \<Rightarrow>
             (let l0 = repeat32 ''01''; l1 = repeat32 ''02''
              in case exec_field K m P (MBuildTree issuer [l0, l1]) e of
                   Some (Inr _, e) \<Rightarrow> no_errors (exec_field K m P (QProof issuer 0) e)
                 | _ \<Rightarrow> False)
         | _ \<Rightarrow> False)"

definition assemble_serves_queries ::
    "('c, 'r, attestation_event) channel \<Rightarrow> 'h keccak \<Rightarrow> arith_mode \<Rightarrow>
     ('i, 32 bytes, identity_view) dashmap \<Rightarrow>
     ('j, 32 bytes, issuer_view) dashmap \<Rightarrow> ('t, 32 bytes, digest list) dashmap \<Rightarrow> bool" where
  "assemble_serves_queries C K m Di Dj Dt \<longleftrightarrow>
     (case assemble C Di Dj Dt node_config_default of
        None \<Rightarrow> False
      | Some (P, e, _, _) \<Rightarrow> no_errors (exec_field K m P QStats e))"

lemma config_test: "defaults_are_sane"
  by (simp add: defaults_are_sane_def Let_def poll_interval_def scan_interval_def node_config_default_def)

context engine_ports begin

lemma stats_some_issuer:
  assumes "engine_ok E" and "store_map (p_identities P) (eg_identities E) = Map.empty"
  shows "\<exists>s. stats m P E = Some (Inr s)"
  using stats_exact [OF assms(1), of m] assms(2) by auto

text \<open>The state after the simulator has been polled once.\<close>

lemma sim_poll_state:
  "\<exists>E'. poll_once P sim_source (empty_engine ids0 iss0 trees0, M) =
      (Inr 2, (E', M\<lparr>mx_poll_total := mx_poll_total M + 1\<rparr>)) \<and>
    engine_ok E' \<and> store_map (p_identities P) (eg_identities E') = [idv_address demo_identity \<mapsto> demo_identity]"
  by (simp add: poll_once_def sim_source_def sim_poll_identities_def sim_poll_issuers_def Let_def
      ingest_identity_eq ingest_issuer_eq empty_engine_def publish_def engine_ok_def
      ids.ok_upsert ids.ok_empty iss.ok_upsert iss.ok_empty ids.content_upsert ids.content_empty)

lemma one_identity:
  assumes "engine_ok E" and "store_map (p_identities P) (eg_identities E) = [idv_address demo_identity \<mapsto> demo_identity]"
  shows "\<exists>s. stats m P E = Some (Inr s)" and "\<exists>vs. identities_snapshot P E = Inr vs \<and> length vs = 1"
proof -
  show "\<exists>s. stats m P E = Some (Inr s)"
    using stats_exact [OF assms(1), of m] unfolding assms(2) by (simp add: demo_identity_def) blast
  obtain vs where "sto_all (p_identities P) (eg_identities E) = Inr vs"
    "length vs = card (dom (store_map (p_identities P) (eg_identities E)))"
    using assms(1) by (auto simp: engine_ok_def intro: ids.all_content)
  then show "\<exists>vs. identities_snapshot P E = Inr vs \<and> length vs = 1"
    unfolding assms(2) by (simp add: identities_snapshot_def)
qed

end

lemma repeat32_hex:
  "repeat32 (byte_hex b) = pubkey_to_hex (Pubkey (arr_fill b))"
  "repeat32 (byte_hex b) = digest_to_hex (Digest (arr_fill b))"
  by (simp_all add: repeat32_def pubkey_to_hex_def digest_to_hex_def to_hex_def)

lemma byte_texts:
  "''ee'' = byte_hex 0xEE" "''11'' = byte_hex 0x11" "''07'' = byte_hex 0x07"
  "''01'' = byte_hex 0x01" "''02'' = byte_hex 0x02"
  by (simp_all add: byte_hex_def hex_char_def char_eq_iff_of_char)

context engine_ports begin

lemma api_test:
  "\<exists>r1 E1 r2 E2 r3. exec_field K m P (MIngestIssuer (pubkey_to_hex a) (pubkey_to_hex k) (digest_to_hex d))
      (empty_engine ids0 iss0 trees0) = Some (Inr r1, E1) \<and>
    exec_field K m P (MBuildTree (pubkey_to_hex a) [digest_to_hex l0, digest_to_hex l1]) E1 = Some (Inr r2, E2) \<and>
    exec_field K m P (QProof (pubkey_to_hex a) 0) E2 = Some (Inr r3, E2)"
proof -
  let ?v = "\<lparr>isv_address = a, isv_authority = k, isv_schema_id = d, isv_merkle_root = digest_zero,
    isv_attestation_count = 0\<rparr>"
  let ?E1 = "snd (ingest_issuer P (empty_engine ids0 iss0 trees0) ?v)"
  let ?E2 = "publish (?E1\<lparr>eg_trees := snd (lst_put (p_trees P) (eg_trees ?E1) a [l0, l1]),
    eg_issuers := snd (sto_upsert (p_issuers P) (eg_issuers ?E1) (?v\<lparr>isv_merkle_root := root_of K [l0, l1]\<rparr>))\<rparr>)
    (TreeBuilt a (root_of K [l0, l1]) 2)"
  have ingest: "exec_field K m P (MIngestIssuer (pubkey_to_hex a) (pubkey_to_hex k) (digest_to_hex d))
      (empty_engine ids0 iss0 trees0) = Some (Inr (VIssuer (issuer_to_dto ?v)), ?E1)"
    by (simp add: mutate_ingest_issuer_def ingest_issuer_eq as_value_def)
  have "store_map (p_issuers P) (eg_issuers ?E1) a = Some ?v"
    by (simp add: ingest_issuer_eq publish_def empty_engine_def iss.content_upsert iss.ok_empty)
  then have build: "build_tree K P ?E1 a [l0, l1] = Some (Inr (root_of K [l0, l1]), ?E2)"
    by (simp add: build_tree_eq)
  then have "exec_field K m P (MBuildTree (pubkey_to_hex a) [digest_to_hex l0, digest_to_hex l1]) ?E1 =
      Some (Inr (VRoot (digest_to_hex (root_of K [l0, l1]))), ?E2)"
    by (simp add: mutate_build_tree_def as_value_def)
  moreover have "leaf_lookup (p_trees P) (eg_trees ?E2) a = Some [l0, l1]"
    by (simp add: publish_def trees.leaf_lookup_put)
  then obtain pf where "prove K m P ?E2 a 0 = Some (Inr pf)"
    using prove_eq [of ?E2 a K m 0] by simp
  then have "exec_field K m P (QProof (pubkey_to_hex a) 0) ?E2 = Some (Inr (VProof (proof_to_dto pf)), ?E2)"
    by (simp add: query_proof_def as_value_def)
  ultimately show ?thesis using ingest by blast
qed

end

lemma node_tests:
  fixes to_f64 :: "u64 \<Rightarrow> 'f"
  assumes "identity_map Di" and "issuer_map Dj" and "leaves_map Dt"
  shows "poll_then_scan m to_f64 Di Dj Dt" and "stats_query_executes K m Di Dj Dt"
    and "ingest_build_and_verify K m Di Dj Dt"
    and "bus_new C 1024 \<noteq> None \<Longrightarrow> assemble_serves_queries C K m Di Dj Dt"
proof -
  note ports = node_engine_ports [OF assms]
  let ?P = "node_ports Di Dj Dt" and ?E = "empty_engine (dm_new Di) (dm_new Dj) (dm_new Dt)"
  obtain E' where poll: "poll_once ?P sim_source (?E, metrics_start :: 'f metrics) =
      (Inr 2, (E', metrics_start\<lparr>mx_poll_total := mx_poll_total (metrics_start :: 'f metrics) + 1\<rparr>))"
    and E': "engine_ports.engine_ok (keyed_by idv_address Di) (keyed_by isv_address Dj) E'"
      "store_map (p_identities ?P) (eg_identities E') = [idv_address demo_identity \<mapsto> demo_identity]"
    using engine_ports.sim_poll_state [OF ports] by blast
  show "poll_then_scan m to_f64 Di Dj Dt"
    using engine_ports.one_identity(1) [OF ports E', of m] engine_ports.one_identity(2) [OF ports E']
    by (auto simp: poll_then_scan_def Let_def poll scan_once_def)
  obtain s where "stats m ?P ?E = Some (Inr s)"
    using engine_ports.stats_some_issuer [OF ports engine_ports.empty_ok [OF ports], of m]
      identity_map.healthy [OF assms(1)]
    by (auto simp: node_ports_def empty_engine_def keyed_store.content_empty)
  then have stats: "no_errors (exec_field K m ?P QStats ?E)"
    by (simp add: no_errors_def query_stats_def as_value_def)
  then show "stats_query_executes K m Di Dj Dt" by (simp add: stats_query_executes_def)
  show "assemble_serves_queries C K m Di Dj Dt" if ch: "bus_new C 1024 \<noteq> None"
  proof (cases "assemble C Di Dj Dt node_config_default")
    case None
    with ch show ?thesis by (simp add: assemble_None node_config_default_def)
  next
    case (Some q)
    obtain P e c bus where q: "q = (P, e, c, bus)" by (cases q)
    with Some have "P = ?P" "e = ?E" by (simp_all add: assemble_Some)
    with Some q stats show ?thesis by (simp add: assemble_serves_queries_def)
  qed
  show "ingest_build_and_verify K m Di Dj Dt"
    unfolding ingest_build_and_verify_def Let_def byte_texts
    using engine_ports.api_test [OF ports, of K m "Pubkey (arr_fill 0xEE)" "Pubkey (arr_fill 0x11)"
        "Digest (arr_fill 0x07)" "Digest (arr_fill 0x01)" "Digest (arr_fill 0x02)"]
    by (auto simp: no_errors_def simp del: exec_field.simps simp flip: repeat32_hex)
qed

lemma backoff_test:
  assumes "\<And>d k. k < 1000 \<Longrightarrow> mul_milli d k \<le> d"
  shows "backoff_is_bounded_and_grows mul_milli"
proof -
  have "backoff mul_milli retry_default a \<le> rp_max_delay retry_default" for a
    using backoff_bounded [where mul_milli = mul_milli and p = retry_default and attempt = a, OF assms]
    by (simp add: retry_default_def from_millis_def DURATION_MAX_def)
  then show ?thesis by (simp add: backoff_is_bounded_and_grows_def)
qed

section \<open>All tests\<close>

text \<open>
  The unit tests of the repository pass on the model: those of the Merkle modules, the
  parser, the types and the engine for every hash where they expect an acceptance, and for a
  hash that tells their inputs apart where they expect a refusal; those of the adapters, the
  resilience primitives, the API, the keepers and the node over every \<open>DashMap\<close>, broadcast
  channel and timer that keep their contracts.
\<close>

lemma unit_tests_pass:
  assumes "identity_map Di" and "issuer_map Dj" and "leaves_map Dt" and "channel C view"
    and "bus_new C 8 \<noteq> None" and "bus_new C 1024 \<noteq> None"
    and "timer timeout completes" and "\<And>d v. completes (sleep_then d v) = Some (d, v)"
    and "\<And>d k. k < 1000 \<Longrightarrow> mul_milli d k \<le> d"
  shows "(single_leaf_tree_root_is_leaf H \<and> two_leaf_tree_membership H \<and> four_leaf_tree_membership H \<and>
      wrong_proof_fails sum_hashv) \<and>
    (single_leaf_root_is_leaf K m \<and> two_leaf_proofs_verify K m \<and> four_leaf_proofs_verify K m \<and>
      odd_leaf_count_verifies K m \<and> wrong_leaf_fails sum_keccak m \<and> empty_tree_zero_root K) \<and>
    (extracts_embedded_credential \<and> rejects_empty_and_zero_sigs \<and> rejects_cross_instruction_reference \<and>
      rejects_truncated_offsets \<and> hex_roundtrips) \<and>
    (build_prove_and_verify sum_keccak m \<and> stats_count_passkeys_and_attestations m \<and>
      prove_out_of_range_errors K m) \<and>
    (identity_store_roundtrip Di \<and> tree_store_roundtrip Dt \<and> bus_delivers_events C \<and>
      sim_mints_identity_and_issuer) \<and>
    (timeout_fires timeout sleep_then \<and> timeout_passes timeout sleep_then \<and>
      backoff_is_bounded_and_grows mul_milli \<and> retry_succeeds_after_failures mul_milli \<and>
      breaker_opens_and_recovers m \<and> rate_limiter_refills rat_ops \<and> defaults_are_sane) \<and>
    (poll_then_scan m to_f64 Di Dj Dt \<and> stats_query_executes K m Di Dj Dt \<and>
      ingest_build_and_verify K m Di Dj Dt \<and> assemble_serves_queries C K m Di Dj Dt)"
  using core_tests [of H K m] identity_store_test [OF assms(1)] tree_store_test [OF assms(3)] bus_test [OF assms(4,5)]
    timeout_tests [OF assms(7,8)] backoff_test [OF assms(9)] retry_test [of mul_milli] breaker_test [of m] limiter_test
    config_test node_tests(1-3) [OF assms(1-3)] node_tests(4) [OF assms(1-3,6)]
  by (auto simp: sim_mints_identity_and_issuer_def sim_poll_identities_def sim_poll_issuers_def)

end
