(* ===== verification/Spec2Isabelle.thy ===== *)
theory Spec2Isabelle
  imports Claim_Trees Registry Layout Node Subscription Node_Tests
begin

text \<open>
  A verification development of PassKeyAuth, a Solana program for passkey identities and
  Merkle attestations, with the off-chain service that mints and checks the proofs.

  \<^bold>\<open>The program.\<close> An owner creates an identity account with tables for four passkeys and four
  attestations. An authority registers an issuer with a schema and the root of a Merkle tree
  over the leaves of the eligible set. A passkey is verified by finding, among the
  instructions of the same transaction, one of the secp256r1 precompile that signed with
  it. An attestation is claimed with a leaf, its authentication path and a nullifier, which is
  burnt by creating an account at an address derived from it. Off-chain, an engine mirrors
  identities and issuers in stores, builds the trees, mints and verifies proofs, and is driven
  by a GraphQL surface and by two background watchers.

  \<^bold>\<open>Theories and sources.\<close> (\<open>P\<close> is \<open>src/programs/passkeyauth/src\<close>, \<open>C\<close> is
  \<open>src/offchain/crates\<close>.)
  \<^item> \<open>Prelude\<close>, \<open>Arrays\<close>: machine integers, \<open>Result\<close>, panics, slices, fixed-size arrays.
  \<^item> \<open>Merkle_Scheme\<close>: the specification of a Merkle check and of a tree, with the interface
    \<open>merkle_verifier\<close>; \<open>Merkle_Onchain\<close> (\<open>P/merkle.rs\<close>) and \<open>Merkle_Offchain\<close>
    (\<open>C/core/src/merkle.rs\<close>) are its two providers, and \<open>Merkle_Agreement\<close> relates them.
  \<^item> \<open>Precompile\<close> (\<open>P/passkey.rs\<close>): the parser of the precompile instruction and its encoder.
  \<^item> \<open>Onchain_State\<close> (\<open>P/constants.rs\<close>, \<open>P/errors.rs\<close>, \<open>P/state.rs\<close>) and \<open>Program\<close>
    (\<open>P/lib.rs\<close>): account data, the six account contexts, the six handlers and \<open>exec\<close>, which
    runs one instruction on the ledger. \<open>Program_Facts\<close> states each of them as an
    equivalence.
  \<^item> \<open>Layout\<close> (the derived serialisation of \<open>P/state.rs\<close>): the bytes of the accounts.
  \<^item> \<open>Ledger\<close>, \<open>Ledger_Inv\<close>: the ledger as a transition system, the effects an instruction can
    have, and its invariants. \<open>Slots\<close>: the live entries of a table come first.
    \<open>Scenario\<close> is a concrete run.
  \<^item> \<open>Onchain_Safety\<close>, \<open>Onchain_Behaviour\<close>, \<open>Claim_Trees\<close>: the properties of the on-chain
    program and of claims with off-chain proofs. \<open>Registry\<close>: an identity as two lists, and
    the refinement of this specification by the handlers.
  \<^item> \<open>Domain\<close> (\<open>C/types/src/lib.rs\<close>): the shared views and their hexadecimal texts.
  \<^item> \<open>Stores\<close> (\<open>C/core/src/ports.rs\<close>, \<open>C/infra/src/lib.rs\<close>, the test stores of
    \<open>C/core/src/engine.rs\<close>): the storage ports as interfaces \<open>keyed_store\<close> and \<open>leaf_map\<close>,
    interpreted on both families of stores; the contract of \<open>DashMap\<close> is the locale \<open>dashmap\<close>.
  \<^item> \<open>Engine\<close> (\<open>C/core/src/engine.rs\<close>, \<open>C/core/src/events.rs\<close>), \<open>Engine_Spec\<close> (the abstract
    service it implements), \<open>Engine_Runs\<close> (sequences of requests), \<open>Engine_Props\<close>, and
    \<open>Engine_Races\<close> (operations interleaved at their await points).
  \<^item> \<open>Simulator\<close> (the data source of \<open>C/infra/src/lib.rs\<close>), \<open>Event_Bus\<close> (its broadcast bus),
    \<open>Keeper\<close> (\<open>C/node/src/keeper.rs\<close>), \<open>Api\<close> and \<open>Subscription\<close> (\<open>C/api/src/lib.rs\<close>),
    \<open>Resilience\<close>, \<open>Limiter\<close> and \<open>Clocks\<close> (\<open>C/resilience/src/lib.rs\<close>).
  \<^item> \<open>Node_System\<close>: requests, poller and scanner on one engine, interleaved at their await
    points. A request may be dropped at any of them, which is more than the in-memory adapters
    allow: their futures never suspend, and no property rests on such a drop. \<open>Http_App\<close>
    (\<open>C/node/src/startup.rs\<close>): routes, documents of several fields, handlers, deadline and
    shutdown signal. \<open>Node\<close> (\<open>C/node/src/lib.rs\<close>,
    \<open>C/node/src/config.rs\<close>, \<open>C/core/src/config.rs\<close>, the timers of \<open>keeper.rs\<close>): the assembly
    and \<open>run\<close>, from the start to the graceful shutdown.
  \<^item> \<open>Core_Tests\<close>, \<open>Node_Tests\<close>: the unit tests of all these modules as executable checks.

  \<^bold>\<open>State and operations.\<close> The on-chain state is the map from addresses to the accounts that the
  program owns; an instruction returns the new ledger and its event, or an error that leaves
  the ledger as it was. The engine's state is that of its three stores and the list of the
  events it has published; an operation returns its \<open>Result\<close> and the new state, or \<open>None\<close> where
  the code panics. The running node's state is the engine, the metrics, where its poller and
  scanner are, and its request tasks; \<open>node_step\<close> is one action of one of them.

  \<^bold>\<open>What the lemmas show.\<close>
  \<^item> On-chain: a spent nullifier is never spent again; no reachable ledger has a counter that
    differs from its table or a dangling reference; an issuer's counter is the number of burnt nullifiers; only
    the owner's or the authority's signature changes an account; a claim succeeds under stated
    conditions and fails with a stated error otherwise; the slots and counters of an identity
    implement two lists that grow at their ends. The bytes of an account fill its reserved space and read back as it.
  \<^item> Merkle: the two implementations are one function; every leaf has a proof that verifies; a
    proof of the depth of the tree that verifies is for a leaf, unless the hash collides;
    together with the program, what the service mints is claimable and what is claimed at that
    depth is in the set. Since leaves and inner nodes are hashed alike and the depth is not
    checked on-chain, inner nodes and the root itself are claimable too.
  \<^item> Service: the engine refines a service over three maps, for every healthy store and
    \<open>DashMap\<close>; minted proofs verify while no request touches the issuer, also through the
    API; the requests that make a handler panic are characterised exactly, for
    documents of several fields too. A subscriber gets
    the events of the successful requests in order, or the newest of them when it lags.
  \<^item> Concurrency: in the running node a build is isolated while nobody else touches its issuer;
    otherwise concurrent builds, a poll in the middle of a build, and the polls of the
    simulator each have a schedule that breaks the proofs or loses data.
  \<^item> Node: after a signal \<open>run\<close> drains the requests it has accepted and ends with success,
    when each of them is served or dropped; and a zero interval kills a keeper.
  \<^item> Primitives: the circuit breaker against the history of its calls and on both clocks, the
    retry loop, the bounds of its backoff, and what the rate limiter admits at any readings of
    its clock, rounding included.
  \<^item> The unit tests hold of the model; they are lemmas, which the properties generalise.

  \<^bold>\<open>Parameters and hypotheses.\<close> Keccak-256 is a parameter (\<open>hashv\<close> on-chain, the incremental
  hasher off-chain); \<open>hash_agree\<close> says that both compute one function, and security statements
  exhibit a colliding pair instead of assuming that there is none. Program-derived addresses are
  a parameter: the law \<open>pda_law\<close> says that an address which is found for some seeds is created
  again from them and its bump; that they do not collide is not assumed. The clock, the
  instructions sysvar and whether a payer can fund an account come with each transaction.
  The libraries around the node are parameters with their documented contracts as locales:
  \<open>account_formats\<close> (Borsh's primitive types and Anchor's discriminators), \<open>dashmap\<close>, \<open>channel\<close> (the broadcast
  channel, of whose panics only the documented ones are assumed), \<open>timer\<close> (the deadline of a future), \<open>router\<close>
  (the table of routes); each has an instance. The timer of the keepers is a parameter of
  which one property assumes that it panics on a zero period.
  What the GraphQL framework finds in a request is a parameter: whether its body is one, the
  root fields of its document, and whether an error cancels the remaining fields.
  Floating-point operations are parameters: the product of the jitter, and the token bucket's
  arithmetic. Its laws are those of IEEE 754: \<open>f64_exact\<close>, exactness on whole numbers up to
  \<open>2 ^ 53\<close>, and the locale \<open>f64_round\<close>, a relative rounding error within the range; they are
  interpreted on exact arithmetic and on rounding to 53 bits. Off-chain arithmetic runs in either mode,
  with overflow checks or wrapping; the on-chain program is built with checks.

  \<^bold>\<open>Bounds.\<close> On-chain proofs have at most 20 siblings, so trees at most \<open>2 ^ 20\<close> leaves; off-chain
  verification shifts a 64-bit word, so at most 64 siblings and \<open>2 ^ 64\<close> leaves. The tables have
  4 slots; the scan of a transaction reads 16 instructions; an engine operation has at most four
  interruptible steps. No definition uses fuel: every other loop is structural or has a measure.
  The reads of a stream are a \<open>partial_function\<close>, shown to return after at most one lag error.

  \<^bold>\<open>Not modelled.\<close> Serialisation of instruction arguments, events and views by Borsh and serde, parsing of GraphQL documents and of the
  command line, WebSocket framing, tracing and the exporter of the metrics are libraries, and
  \<open>C/node/src/main.rs\<close> only calls them; the benchmark and the deployment files have no logic.
  The tests \<open>app_builds\<close> and \<open>recorder_renders\<close> assert nothing, and \<open>parses_from_args\<close> tests the
  command line library. A store operation is atomic, as
  the shard locks of \<open>DashMap\<close> make it for one key; the weaker consistency of its iterators under
  concurrent writes is not modelled.
\<close>

end
